theory Spec2Isabelle
  imports Main "HOL-Library.AList"
begin

section \<open>JavaScript preliminaries\<close>

text \<open>
  The only exception the modelled code can throw by itself is a \<open>TypeError\<close>: from
  \<open>Array.prototype.reduce\<close> called on an empty array without an initial value, and from
  \<open>Object.keys\<close> called on \<open>undefined\<close>.
\<close>

datatype error = TypeError

text \<open>\<open>String.prototype.split\<close> with a one-character separator.\<close>

fun js_split :: "char \<Rightarrow> string \<Rightarrow> string list" where
  "js_split sep [] = [ [] ]"
| "js_split sep (c # cs) =
     (if c = sep then [] # js_split sep cs
      else (case js_split sep cs of [] \<Rightarrow> [ [c] ] | w # ws \<Rightarrow> (c # w) # ws))"

text \<open>
  \<open>Array.prototype.forEach\<close> / \<open>map\<close> used as a loop whose body mutates an object and
  may throw: the object is threaded through, the first exception ends the loop.
\<close>

fun forEach :: "('s \<Rightarrow> 'x \<Rightarrow> error + 's) \<Rightarrow> 's \<Rightarrow> 'x list \<Rightarrow> error + 's" where
  "forEach body s [] = Inr s"
| "forEach body s (x # xs) =
     (case body s x of Inl e \<Rightarrow> Inl e | Inr s' \<Rightarrow> forEach body s' xs)"

section \<open>Resolver composition (resolvers-composition)\<close>

text \<open>
  A resolver map \<open>IResolvers\<close> is an object of objects: type name, then field name, then
  a value. Key order is insertion order, so both levels are association lists; a value
  stored at a field is a resolver or \<open>undefined\<close>.
\<close>

datatype 'r jsvalue = Undefined | Resolver 'r

type_synonym 'r fields = "(string \<times> 'r jsvalue) list"
type_synonym 'r IResolvers = "(string \<times> 'r fields) list"

text \<open>A mapping entry holds one composer function or an array of them (\<open>any | any[]\<close>).\<close>

datatype 'f one_or_many = Single 'f | Many "'f list"

type_synonym 'r composer = "'r jsvalue \<Rightarrow> 'r jsvalue"
type_synonym 'r IResolversComposerMapping = "(string \<times> 'r composer one_or_many) list"

text \<open>
  lodash \<open>get\<close> and \<open>set\<close> on a path of dot-separated names. On a resolver map only paths
  of two names address a field: \<open>get\<close> yields \<open>undefined\<close> when the type or the field is
  missing, \<open>set\<close> creates the type object when it is missing and appends a new field
  after the existing ones. Paths of another length arise in \<open>composeResolvers\<close> only
  from a field key that itself contains a dot; they address a property of a resolver
  function, not an entry of the map, so the map reads \<open>undefined\<close> and stays as it is.
\<close>

definition lodash_get :: "'r IResolvers \<Rightarrow> string \<Rightarrow> 'r jsvalue" where
  "lodash_get resolvers path =
     (case js_split CHR ''.'' path of
        [typeName, fieldName] \<Rightarrow>
          (case map_of resolvers typeName of
             None \<Rightarrow> Undefined
           | Some fs \<Rightarrow> (case map_of fs fieldName of None \<Rightarrow> Undefined | Some v \<Rightarrow> v))
      | _ \<Rightarrow> Undefined)"

definition lodash_set :: "'r IResolvers \<Rightarrow> string \<Rightarrow> 'r jsvalue \<Rightarrow> 'r IResolvers" where
  "lodash_set resolvers path v =
     (case js_split CHR ''.'' path of
        [typeName, fieldName] \<Rightarrow>
          AList.update typeName
            (AList.update fieldName v
               (case map_of resolvers typeName of None \<Rightarrow> [] | Some fs \<Rightarrow> fs))
            resolvers
      | _ \<Rightarrow> resolvers)"

definition resolveRelevantMappings ::
  "'r IResolvers \<Rightarrow> string \<Rightarrow> 'r IResolversComposerMapping \<Rightarrow> error + string list" where
  "resolveRelevantMappings resolvers path allMappings =
     (case js_split CHR ''.'' path of
        [typeName, fieldName] \<Rightarrow>
          (if fieldName = ''*'' then
             (case map_of resolvers typeName of
                None \<Rightarrow> Inl TypeError
              | Some fs \<Rightarrow>
                  Inr (filter (\<lambda>mapItem. map_of allMappings mapItem = None)
                         (map (\<lambda>field. typeName @ ''.'' @ field) (map fst fs))))
           else Inr [path])
      | _ \<Rightarrow> Inr [])"

fun asArray :: "'f one_or_many \<Rightarrow> 'f list" where
  "asArray (Many fns) = fns"
| "asArray (Single fn) = [fn]"

text \<open>
  The functions of a chain take their arguments as one value. A chain of one function is
  that function; a longer one is folded from the left with \<open>reduce\<close>, which has no
  initial value here and throws on the empty array.
\<close>

definition chainFunctions :: "('a \<Rightarrow> 'a) list \<Rightarrow> error + ('a \<Rightarrow> 'a)" where
  "chainFunctions funcs =
     (case funcs of
        [] \<Rightarrow> Inl TypeError
      | [f] \<Rightarrow> Inr f
      | f # fs \<Rightarrow> Inr (foldl (\<lambda>a b. (\<lambda>args. a (b args))) f fs))"

text \<open>
  The body of the inner \<open>forEach\<close>: the chain ends in the thunk that reads the current
  resolver, and is called at once, without arguments.
\<close>

definition composeField ::
  "'r composer one_or_many \<Rightarrow> 'r IResolvers \<Rightarrow> string \<Rightarrow> error + 'r IResolvers" where
  "composeField composeFns resolvers path =
     (case chainFunctions (asArray composeFns @ [\<lambda>_. lodash_get resolvers path]) of
        Inl e \<Rightarrow> Inl e
      | Inr fns \<Rightarrow> Inr (lodash_set resolvers path (fns Undefined)))"

definition composeEntry ::
  "'r IResolversComposerMapping \<Rightarrow> 'r IResolvers \<Rightarrow> string \<times> 'r composer one_or_many
     \<Rightarrow> error + 'r IResolvers" where
  "composeEntry mapping resolvers entry =
     (case resolveRelevantMappings resolvers (fst entry) mapping of
        Inl e \<Rightarrow> Inl e
      | Inr relevantFields \<Rightarrow> forEach (composeField (snd entry)) resolvers relevantFields)"

definition composeResolvers ::
  "'r IResolvers \<Rightarrow> 'r IResolversComposerMapping \<Rightarrow> error + 'r IResolvers" where
  "composeResolvers resolvers mapping = forEach (composeEntry mapping) resolvers mapping"

text \<open>
  Vocabulary for stating what the composer does: the composer list applied to a value,
  the last-listed function innermost; the fields of a type (none when the type is
  missing); and the condition under which no wildcard entry meets a missing type.
\<close>

definition applyComposers :: "('a \<Rightarrow> 'a) list \<Rightarrow> 'a \<Rightarrow> 'a" where
  "applyComposers cs v = foldr (\<lambda>c x. c x) cs v"

definition fields_of :: "'r IResolvers \<Rightarrow> string \<Rightarrow> 'r fields" where
  "fields_of r T = (case map_of r T of None \<Rightarrow> [] | Some fs \<Rightarrow> fs)"

definition wildcardTypesPresent :: "'r IResolvers \<Rightarrow> 'r IResolversComposerMapping \<Rightarrow> bool" where
  "wildcardTypesPresent r mapping =
     list_all (\<lambda>entry. case js_split CHR ''.'' (fst entry) of
                  [T, F] \<Rightarrow> F = ''*'' \<longrightarrow> map_of r T \<noteq> None
                | _ \<Rightarrow> True) mapping"

definition preserved :: "('r IResolvers \<Rightarrow> bool) \<Rightarrow> bool" where
  "preserved P = (\<forall>r q v. P r \<longrightarrow> P (lodash_set r q v))"

section \<open>GraphQLModule\<close>

text \<open>
  An option that is either a value or a function of the module's config
  (\<open>T | ((config: Config) => T)\<close>).
\<close>

datatype ('cfg, 'a) configurable = Literal 'a | Computed "'cfg \<Rightarrow> 'a"

text \<open>
  Type definitions: \<open>string | string[] | DocumentNode | DocumentNode[]\<close>. The same
  type describes one element of the array handed to \<open>mergeGraphQLSchemas\<close>.
\<close>

datatype 'doc typeDefsValue = SDL string | SDLs "string list" | Doc 'doc | Docs "'doc list"

text \<open>
  A provider is the auto-registered \<open>{ provide: ModuleConfig(module), useValue: config }\<close>
  or one declared by the module; \<open>ModuleConfig\<close> yields the symbol
  \<open>Symbol.for('ModuleConfig.' + name)\<close>.
\<close>

datatype token = SymbolFor string

datatype ('cfg, 'p) Provider = ValueProvider token 'cfg | Declared 'p

text \<open>
  Modules refer to each other by reference: the import graph is a store from references
  to module objects, so that modules importing each other can be written down.
\<close>

type_synonym moduleRef = nat

text \<open>
  What a context builder receives as current context and returns: \<open>undefined\<close>, a module
  instance, or another object (a context object, a promise). Objects live in a heap
  \<open>'h\<close> that \<open>Object.assign\<close> and the builders update.
\<close>

datatype 'o ctxValue = CtxUndefined | ModuleObject moduleRef | Object 'o

type_synonym ('req, 'o, 'inj, 'h) BuildContextFn =
  "'req \<Rightarrow> 'o ctxValue \<Rightarrow> 'inj \<Rightarrow> 'h \<Rightarrow> 'o ctxValue \<times> 'h"

type_synonym ('o, 'h) ObjectAssign = "'o ctxValue \<Rightarrow> 'o ctxValue list \<Rightarrow> 'h \<Rightarrow> error + 'h"

text \<open>
  The options object (\<open>_options\<close>), one field per option, \<open>None\<close> for an option that is
  not given; \<open>'b\<close> is the type of the context builder. A module instance holds its
  options and its config (\<open>_moduleConfig\<close>).
\<close>

record ('cfg, 'doc, 'r, 'p, 'b) GraphQLModuleOptions =
  optName :: string
  optTypeDefs :: "('cfg, 'doc typeDefsValue) configurable option"
  optResolvers :: "('cfg, 'r IResolvers) configurable option"
  optContextBuilder :: "'b option"
  optImports :: "('cfg, moduleRef list) configurable option"
  optProviders :: "('cfg, 'p list) configurable option"
  optResolversComposition :: "('cfg, 'r IResolversComposerMapping) configurable option"

record ('cfg, 'doc, 'r, 'p, 'b) GraphQLModule =
  options :: "('cfg, 'doc, 'r, 'p, 'b) GraphQLModuleOptions"
  moduleConfig :: 'cfg

type_synonym ('cfg, 'doc, 'r, 'p, 'b) moduleGraph =
  "moduleRef \<Rightarrow> ('cfg, 'doc, 'r, 'p, 'b) GraphQLModule"

text \<open>The \<open>Injector\<close> class of the dependency-injection package, as far as the module uses it.\<close>

record ('inj, 'prov) InjectorClass =
  construct :: 'inj
  provide :: "'prov \<Rightarrow> 'inj \<Rightarrow> 'inj"
  init :: "'prov \<Rightarrow> 'inj \<Rightarrow> 'inj"

definition ModuleConfig :: "('cfg, 'doc, 'r, 'p, 'b) GraphQLModule \<Rightarrow> token" where
  "ModuleConfig m = SymbolFor (''ModuleConfig.'' @ optName (options m))"

definition withConfig ::
  "('cfg, 'doc, 'r, 'p, 'b) GraphQLModule \<Rightarrow> 'cfg \<Rightarrow> ('cfg, 'doc, 'r, 'p, 'b) GraphQLModule" where
  "withConfig m config = \<lparr>options = options m, moduleConfig = config\<rparr>"

text \<open>The \<open>imports\<close> getter.\<close>

definition importsOf :: "('cfg, 'doc, 'r, 'p, 'b) GraphQLModule \<Rightarrow> moduleRef list" where
  "importsOf m =
     (case optImports (options m) of
        None \<Rightarrow> []
      | Some (Computed f) \<Rightarrow> f (moduleConfig m)
      | Some (Literal ms) \<Rightarrow> ms)"

text \<open>
  The getters call themselves on the imported modules. The first argument bounds the
  depth of these calls; \<open>None\<close> is a getter that needs deeper recursion than that.
\<close>

definition ownProviders ::
  "('cfg, 'doc, 'r, 'p, 'b) GraphQLModule \<Rightarrow> ('cfg, 'p) Provider list" where
  "ownProviders m =
     [ValueProvider (ModuleConfig m) (moduleConfig m)] @
     (case optProviders (options m) of
        None \<Rightarrow> []
      | Some (Computed f) \<Rightarrow> map Declared (f (moduleConfig m))
      | Some (Literal ps) \<Rightarrow> map Declared ps)"

fun providers ::
  "nat \<Rightarrow> ('cfg, 'doc, 'r, 'p, 'b) moduleGraph \<Rightarrow> moduleRef \<Rightarrow> ('cfg, 'p) Provider list option" where
  "providers 0 graph m = None"
| "providers (Suc depth) graph m =
     (case those (map (providers depth graph) (importsOf (graph m))) of
        None \<Rightarrow> None
      | Some importedProviders \<Rightarrow>
          Some (foldl (\<lambda>acc moduleProviders. moduleProviders @ acc) [] importedProviders
                @ ownProviders (graph m)))"

text \<open>
  The local variable \<open>typeDefs\<close> of the getter: the empty array when the option is missing
  or falsy (the empty string), the result of the function as it is, the merge of a
  literal array, a literal string as it is, and a literal document printed.
\<close>

definition ownTypeDefs ::
  "('doc typeDefsValue list \<Rightarrow> string) \<Rightarrow> ('doc \<Rightarrow> string) \<Rightarrow>
   ('cfg, 'doc, 'r, 'p, 'b) GraphQLModule \<Rightarrow> 'doc typeDefsValue" where
  "ownTypeDefs mergeGraphQLSchemas print m =
     (case optTypeDefs (options m) of
        None \<Rightarrow> SDLs []
      | Some (Computed f) \<Rightarrow> f (moduleConfig m)
      | Some (Literal (SDLs ss)) \<Rightarrow> SDL (mergeGraphQLSchemas (map SDL ss))
      | Some (Literal (Docs ds)) \<Rightarrow> SDL (mergeGraphQLSchemas (map Doc ds))
      | Some (Literal (SDL s)) \<Rightarrow> if s = [] then SDLs [] else SDL s
      | Some (Literal (Doc d)) \<Rightarrow> SDL (print d))"

fun typeDefs ::
  "nat \<Rightarrow> ('doc typeDefsValue list \<Rightarrow> string) \<Rightarrow> ('doc \<Rightarrow> string) \<Rightarrow>
   ('cfg, 'doc, 'r, 'p, 'b) moduleGraph \<Rightarrow> moduleRef \<Rightarrow> string option" where
  "typeDefs 0 mergeGraphQLSchemas print graph m = None"
| "typeDefs (Suc depth) mergeGraphQLSchemas print graph m =
     (case those (map (typeDefs depth mergeGraphQLSchemas print graph) (importsOf (graph m))) of
        None \<Rightarrow> None
      | Some importedTypeDefs \<Rightarrow>
          Some (mergeGraphQLSchemas
                  (map SDL importedTypeDefs @ [ownTypeDefs mergeGraphQLSchemas print (graph m)])))"

definition ownResolvers :: "('cfg, 'doc, 'r, 'p, 'b) GraphQLModule \<Rightarrow> 'r IResolvers" where
  "ownResolvers m =
     (case optResolvers (options m) of
        None \<Rightarrow> []
      | Some (Computed f) \<Rightarrow> f (moduleConfig m)
      | Some (Literal rs) \<Rightarrow> rs)"

fun resolvers ::
  "nat \<Rightarrow> ('r IResolvers list \<Rightarrow> 'r IResolvers) \<Rightarrow>
   ('cfg, 'doc, 'r, 'p, 'b) moduleGraph \<Rightarrow> moduleRef \<Rightarrow> 'r IResolvers option" where
  "resolvers 0 mergeResolvers graph m = None"
| "resolvers (Suc depth) mergeResolvers graph m =
     (case those (map (resolvers depth mergeResolvers graph) (importsOf (graph m))) of
        None \<Rightarrow> None
      | Some importedResolvers \<Rightarrow>
          Some (mergeResolvers (importedResolvers @ [ownResolvers (graph m)])))"

definition injector ::
  "nat \<Rightarrow> ('inj, ('cfg, 'p) Provider) InjectorClass \<Rightarrow>
   ('cfg, 'doc, 'r, 'p, 'b) moduleGraph \<Rightarrow> moduleRef \<Rightarrow> 'inj option" where
  "injector depth Injector graph m =
     (case providers depth graph m of
        None \<Rightarrow> None
      | Some ps \<Rightarrow>
          Some (foldl (\<lambda>injectorRef provider. init Injector provider (provide Injector provider injectorRef))
                  (construct Injector) ps))"

text \<open>
  \<open>Array.prototype.reduce\<close> called with a callback only: on an empty array it throws,
  otherwise the first element is the initial accumulator and the callback runs from
  the second element on. The callback may not return, throw, or yield the next
  accumulator and heap.
\<close>

fun reduceFrom ::
  "('acc \<Rightarrow> 'x \<Rightarrow> 'h \<Rightarrow> (error + 'acc \<times> 'h) option) \<Rightarrow> 'acc \<Rightarrow> 'x list \<Rightarrow> 'h
     \<Rightarrow> (error + 'acc \<times> 'h) option" where
  "reduceFrom callback acc [] h = Some (Inr (acc, h))"
| "reduceFrom callback acc (x # xs) h =
     (case callback acc x h of
        None \<Rightarrow> None
      | Some (Inl e) \<Rightarrow> Some (Inl e)
      | Some (Inr (acc', h')) \<Rightarrow> reduceFrom callback acc' xs h')"

definition reduceNoInitial ::
  "('o ctxValue \<Rightarrow> moduleRef \<Rightarrow> 'h \<Rightarrow> (error + 'o ctxValue \<times> 'h) option) \<Rightarrow> moduleRef list \<Rightarrow> 'h
     \<Rightarrow> (error + 'o ctxValue \<times> 'h) option" where
  "reduceNoInitial callback modules h =
     (case modules of
        [] \<Rightarrow> Some (Inl TypeError)
      | first # rest \<Rightarrow> reduceFrom callback (ModuleObject first) rest h)"

text \<open>
  The function that the \<open>contextBuilder\<close> getter returns, applied to its three
  arguments. \<open>Object.assign\<close> mutates its target and returns it, so the result is the
  \<open>builtResult\<close> reference together with the updated heap.
\<close>

fun contextBuilder ::
  "nat \<Rightarrow> ('o, 'h) ObjectAssign \<Rightarrow>
   ('cfg, 'doc, 'r, 'p, ('req, 'o, 'inj, 'h) BuildContextFn) moduleGraph \<Rightarrow> moduleRef \<Rightarrow>
   'req \<Rightarrow> 'o ctxValue \<Rightarrow> 'inj \<Rightarrow> 'h \<Rightarrow> (error + 'o ctxValue \<times> 'h) option" where
  "contextBuilder 0 assign graph m request builtResult injectorRef h = None"
| "contextBuilder (Suc depth) assign graph m request builtResult injectorRef h =
     (let contextBuilderDefinition =
            (case optContextBuilder (options (graph m)) of
               None \<Rightarrow> (\<lambda>_ _ _ h'. (CtxUndefined, h'))
             | Some builder \<Rightarrow> builder)
      in case reduceNoInitial
                (\<lambda>acc module h0.
                   case contextBuilder depth assign graph module request acc injectorRef h0 of
                     None \<Rightarrow> None
                   | Some (Inl e) \<Rightarrow> Some (Inl e)
                   | Some (Inr (imported, h1)) \<Rightarrow>
                       (case assign acc [imported, builtResult] h1 of
                          Inl e \<Rightarrow> Some (Inl e)
                        | Inr h2 \<Rightarrow> Some (Inr (acc, h2))))
                (importsOf (graph m)) h of
           None \<Rightarrow> None
         | Some (Inl e) \<Rightarrow> Some (Inl e)
         | Some (Inr (currentContext, h1)) \<Rightarrow>
             (case contextBuilderDefinition request currentContext injectorRef h1 of
                (own, h2) \<Rightarrow>
                  (case assign builtResult [own] h2 of
                     Inl e \<Rightarrow> Some (Inl e)
                   | Inr h3 \<Rightarrow> Some (Inr (builtResult, h3)))))"

text \<open>
  The \<open>context(request)\<close> method: the outcome of the returned promise, a rejection being \<open>Inl\<close>.
  \<open>newAggregate\<close> is the object literal \<open>{ injector }\<close>.
\<close>

definition moduleContext ::
  "nat \<Rightarrow> ('inj, ('cfg, 'p) Provider) InjectorClass \<Rightarrow> ('o, 'h) ObjectAssign \<Rightarrow>
   ('inj \<Rightarrow> 'h \<Rightarrow> 'o ctxValue \<times> 'h) \<Rightarrow>
   ('cfg, 'doc, 'r, 'p, ('req, 'o, 'inj, 'h) BuildContextFn) moduleGraph \<Rightarrow> moduleRef \<Rightarrow>
   'req \<Rightarrow> 'h \<Rightarrow> (error + 'o ctxValue \<times> 'h) option" where
  "moduleContext depth Injector assign newAggregate graph m request h =
     (case injector depth Injector graph m of
        None \<Rightarrow> None
      | Some injectorRef \<Rightarrow>
          (case newAggregate injectorRef h of
             (builtResult, h0) \<Rightarrow>
               (case contextBuilder depth assign graph m request builtResult injectorRef h0 of
                  None \<Rightarrow> None
                | Some (Inl e) \<Rightarrow> Some (Inl e)
                | Some (Inr (built, h1)) \<Rightarrow>
                    (case assign builtResult [built] h1 of
                       Inl e \<Rightarrow> Some (Inl e)
                     | Inr h2 \<Rightarrow> Some (Inr (builtResult, h2))))))"

section \<open>Example modules and stand-in collaborators\<close>

text \<open>
  Small module graphs on which the getters are evaluated: a chain A imports B imports C,
  a module A importing B and C, and two modules importing each other. Each module
  declares one type, one provider and, optionally, a context builder.
\<close>

definition exampleModule ::
  "string \<Rightarrow> moduleRef list \<Rightarrow> 'b option \<Rightarrow> (unit, unit, nat, string, 'b) GraphQLModule" where
  "exampleModule moduleName imported builder =
     \<lparr>options =
        \<lparr>optName = moduleName,
         optTypeDefs = Some (Literal (SDL (''type '' @ moduleName))),
         optResolvers = None,
         optContextBuilder = builder,
         optImports = Some (Literal imported),
         optProviders = Some (Literal [moduleName @ ''Service'']),
         optResolversComposition = None\<rparr>,
      moduleConfig = ()\<rparr>"

definition chainGraph :: "(unit, unit, nat, string, 'b) moduleGraph" where
  "chainGraph i =
     (if i = 0 then exampleModule ''A'' [1] None
      else if i = 1 then exampleModule ''B'' [2] None
      else exampleModule ''C'' [] None)"

definition fanGraph :: "(unit, unit, nat, string, 'b) moduleGraph" where
  "fanGraph i =
     (if i = 0 then exampleModule ''A'' [1, 2] None
      else if i = 1 then exampleModule ''B'' [] None
      else exampleModule ''C'' [] None)"

definition cycleGraph :: "(unit, unit, nat, string, 'b) moduleGraph" where
  "cycleGraph i =
     (if i = 0 then exampleModule ''A'' [1] None else exampleModule ''B'' [0] None)"

definition singleGraph ::
  "('cfg, 'doc, 'r, 'p, 'b) GraphQLModule \<Rightarrow> ('cfg, 'doc, 'r, 'p, 'b) moduleGraph" where
  "singleGraph m i = m"

text \<open>Modules whose type definitions are a function returning a list, and the empty string.\<close>

definition functionTypeDefsModule :: "(unit, unit, nat, string, unit) GraphQLModule" where
  "functionTypeDefsModule =
     (exampleModule ''F'' [] None)
       \<lparr>options := (options (exampleModule ''F'' [] None))
          \<lparr>optTypeDefs := Some (Computed (\<lambda>_. SDLs [''type A'', ''type B'']))\<rparr>\<rparr>"

definition emptyTypeDefsModule :: "(unit, unit, nat, string, unit) GraphQLModule" where
  "emptyTypeDefsModule =
     (exampleModule ''E'' [] None)
       \<lparr>options := (options (exampleModule ''E'' [] None))\<lparr>optTypeDefs := Some (Literal (SDL []))\<rparr>\<rparr>"

text \<open>
  A stand-in for the schema-merge collaborator that puts the fragments side by side, and
  a composer that appends its digit to the resolver it wraps, so that the order of
  application can be read off the result.
\<close>

definition printNothing :: "unit \<Rightarrow> string" where
  "printNothing d = []"

fun fragmentText :: "'doc typeDefsValue \<Rightarrow> string" where
  "fragmentText (SDL s) = s"
| "fragmentText (SDLs ss) = concat ss"
| "fragmentText (Doc d) = []"
| "fragmentText (Docs ds) = []"

fun joinFragments :: "'doc typeDefsValue list \<Rightarrow> string" where
  "joinFragments [] = []"
| "joinFragments [v] = fragmentText v"
| "joinFragments (v # vs) = fragmentText v @ '' '' @ joinFragments vs"

definition digitComposer :: "nat \<Rightarrow> nat composer" where
  "digitComposer k v = (case v of Undefined \<Rightarrow> Resolver k | Resolver n \<Rightarrow> Resolver (10 * n + k))"

text \<open>
  A reference heap for context objects: every object, a module instance included, has a
  list of the data properties assigned to it. \<open>Object.assign\<close> throws on an \<open>undefined\<close>
  target and when it meets, on a module instance, a property that the class defines
  with a getter only; an \<open>undefined\<close> source is skipped.
\<close>

type_synonym referenceHeap = "nat ctxValue \<Rightarrow> (string \<times> string) list"

definition emptyHeap :: referenceHeap where
  "emptyHeap object = []"

definition accessorNames :: "string list" where
  "accessorNames =
     [''providers'', ''typeDefs'', ''resolvers'', ''imports'', ''schema'', ''injector'',
      ''contextBuilder'']"

definition referenceAssign :: "(nat, referenceHeap) ObjectAssign" where
  "referenceAssign target sources h =
     (let properties =
            concat (map (\<lambda>source. case source of CtxUndefined \<Rightarrow> [] | _ \<Rightarrow> h source) sources)
      in case target of
           CtxUndefined \<Rightarrow> Inl TypeError
         | ModuleObject _ \<Rightarrow>
             if list_ex (\<lambda>p. fst p \<in> set accessorNames) properties then Inl TypeError
             else Inr (h(target := foldl (\<lambda>fs p. AList.update (fst p) (snd p) fs) (h target) properties))
         | Object _ \<Rightarrow>
             Inr (h(target := foldl (\<lambda>fs p. AList.update (fst p) (snd p) fs) (h target) properties)))"

definition referenceAggregate :: "'inj \<Rightarrow> referenceHeap \<Rightarrow> nat ctxValue \<times> referenceHeap" where
  "referenceAggregate injectorRef h = (Object 0, h(Object 0 := [(''injector'', ''Injector'')]))"

definition listInjector :: "('prov list, 'prov) InjectorClass" where
  "listInjector = \<lparr>construct = [], provide = (\<lambda>p registered. registered @ [p]), init = (\<lambda>p registered. registered)\<rparr>"

text \<open>A context builder that returns a new object with one field.\<close>

definition fieldBuilder ::
  "nat \<Rightarrow> string \<Rightarrow> string \<Rightarrow> (string, nat, 'inj, referenceHeap) BuildContextFn" where
  "fieldBuilder address field v request currentContext injectorRef h =
     (Object address, h(Object address := [(field, v)]))"

definition contextGraph ::
  "(unit, unit, nat, string, (string, nat, 'inj, referenceHeap) BuildContextFn) moduleGraph" where
  "contextGraph i =
     (if i = 0 then exampleModule ''A'' [1] (Some (fieldBuilder 1 ''user'' ''me''))
      else exampleModule ''B'' [] (Some (fieldBuilder 2 ''posts'' ''all'')))"

definition composedModule :: "(unit, unit, nat, string, unit) GraphQLModule" where
  "composedModule =
     (exampleModule ''Q'' [] None)
       \<lparr>options := (options (exampleModule ''Q'' [] None))
          \<lparr>optResolvers := Some (Literal [(''Query'', [(''me'', Resolver 7)])])\<rparr>\<rparr>"

text \<open>
  A chain of modules with the other literal forms of type definitions, documents being
  named by strings here: A gives a list of documents and imports B, B gives a list of
  strings and imports C, C gives one document. The stand-in printer and merge keep the
  documents visible.
\<close>

definition formsModule ::
  "string \<Rightarrow> string typeDefsValue \<Rightarrow> moduleRef list \<Rightarrow> (unit, string, nat, string, unit) GraphQLModule" where
  "formsModule moduleName definitions imported =
     \<lparr>options =
        \<lparr>optName = moduleName,
         optTypeDefs = Some (Literal definitions),
         optResolvers = None,
         optContextBuilder = None,
         optImports = Some (Literal imported),
         optProviders = None,
         optResolversComposition = None\<rparr>,
      moduleConfig = ()\<rparr>"

definition formsGraph :: "(unit, string, nat, string, unit) moduleGraph" where
  "formsGraph i =
     (if i = 0 then formsModule ''A'' (Docs [''a1'', ''a2'']) [1]
      else if i = 1 then formsModule ''B'' (SDLs [''type B1'', ''type B2'']) [2]
      else formsModule ''C'' (Doc ''c'') [])"

definition printDocument :: "string \<Rightarrow> string" where
  "printDocument d = ''printed-'' @ d"

fun documentText :: "string typeDefsValue \<Rightarrow> string" where
  "documentText (SDL s) = s"
| "documentText (SDLs ss) = concat ss"
| "documentText (Doc d) = ''doc-'' @ d"
| "documentText (Docs ds) = concat ds"

fun mergeDocuments :: "string typeDefsValue list \<Rightarrow> string" where
  "mergeDocuments [] = []"
| "mergeDocuments [v] = documentText v"
| "mergeDocuments (v # vs) = documentText v @ '' '' @ mergeDocuments vs"

section \<open>Properties of the resolver composer\<close>


lemma js_split_nonempty: "js_split sep s \<noteq> []"
  by (induction s) (auto split: list.splits)

lemma js_split_no_sep: "sep \<notin> set s \<Longrightarrow> js_split sep s = [s]"
  by (induction s) auto

lemma js_split_append: "sep \<notin> set a \<Longrightarrow> js_split sep (a @ sep # b) = a # js_split sep b"
  by (induction a) auto

lemma js_split_two: "sep \<notin> set a \<Longrightarrow> sep \<notin> set b \<Longrightarrow> js_split sep (a @ sep # b) = [a, b]"
  by (simp add: js_split_append js_split_no_sep)

lemma js_split_Cons:
  "js_split sep s = w # ws \<Longrightarrow> sep \<notin> set w \<and> (if ws = [] then s = w else \<exists>rest. s = w @ sep # rest \<and> js_split sep rest = ws)"
proof (induction s arbitrary: w ws)
  case Nil
  then show ?case by auto
next
  case (Cons c cs)
  show ?case
  proof (cases "c = sep")
    case True
    with Cons.prems have "w = []" "ws = js_split sep cs" by auto
    then show ?thesis using True js_split_nonempty[of sep cs] by auto
  next
    case False
    obtain w' ws' where sp: "js_split sep cs = w' # ws'"
      using js_split_nonempty[of sep cs] by (cases "js_split sep cs") auto
    with Cons.prems False have eq: "w = c # w'" "ws = ws'" by auto
    from Cons.IH[OF sp] eq False show ?thesis by (auto split: if_splits)
  qed
qed

lemma js_split_twoD:
  assumes "js_split sep s = [t, f]"
  shows "s = t @ sep # f \<and> sep \<notin> set t \<and> sep \<notin> set f"
proof -
  from js_split_Cons[OF assms] obtain rest where r: "sep \<notin> set t" "s = t @ sep # rest" "js_split sep rest = [f]"
    by auto
  from js_split_Cons[OF r(3)] have "sep \<notin> set f" "rest = f" by auto
  with r show ?thesis by simp
qed

lemma chain_foldl: "foldl (\<lambda>a b. (\<lambda>args. a (b args))) f fs = (\<lambda>x. f (foldr (\<lambda>c v. c v) fs x))"
  by (induction fs arbitrary: f) auto

lemma chainFunctions_snoc:
  "chainFunctions (cs @ [t]) = Inr (\<lambda>x. foldr (\<lambda>c v. c v) cs (t x))"
proof (cases cs)
  case Nil
  then show ?thesis by (simp add: chainFunctions_def)
next
  case (Cons c cs')
  then show ?thesis
    by (cases cs') (auto simp: chainFunctions_def chain_foldl fun_eq_iff)
qed


lemma lodash_get_fields_of:
  "js_split CHR ''.'' p = [T, F] \<Longrightarrow>
   lodash_get r p = (case map_of (fields_of r T) F of None \<Rightarrow> Undefined | Some v \<Rightarrow> v)"
  by (simp add: lodash_get_def fields_of_def split: option.splits)

lemma fields_of_lodash_set:
  "fields_of (lodash_set r q v) T =
     (case js_split CHR ''.'' q of
        [T', F'] \<Rightarrow> if T' = T then AList.update F' v (fields_of r T) else fields_of r T
      | _ \<Rightarrow> fields_of r T)"
  by (auto simp: lodash_set_def fields_of_def update_conv' split: list.splits option.splits)

lemma lodash_get_set_same:
  "js_split CHR ''.'' p = [T, F] \<Longrightarrow> lodash_get (lodash_set r p v) p = v"
  by (simp add: lodash_get_fields_of fields_of_lodash_set update_conv')

lemma js_split_inj2:
  "js_split sep p = [T, F] \<Longrightarrow> js_split sep q = [T, F] \<Longrightarrow> p = q"
  by (auto dest!: js_split_twoD)

lemma lodash_get_set_other:
  assumes "p \<noteq> q"
  shows "lodash_get (lodash_set r q v) p = lodash_get r p"
proof (cases "\<exists>T F. js_split CHR ''.'' p = [T, F]")
  case False
  then show ?thesis by (auto simp: lodash_get_def split: list.splits)
next
  case True
  then obtain T F where p: "js_split CHR ''.'' p = [T, F]" by blast
  show ?thesis
  proof (cases "\<exists>T' F'. js_split CHR ''.'' q = [T', F']")
    case False
    then have "lodash_set r q v = r" by (auto simp: lodash_set_def split: list.splits)
    then show ?thesis by simp
  next
    case True
    then obtain T' F' where q: "js_split CHR ''.'' q = [T', F']" by blast
    from assms p q js_split_inj2 have "T' \<noteq> T \<or> F' \<noteq> F" by metis
    then show ?thesis
      by (auto simp: lodash_get_fields_of[OF p] fields_of_lodash_set q update_conv')
  qed
qed

lemma map_of_lodash_set_present:
  "map_of r T \<noteq> None \<Longrightarrow> map_of (lodash_set r q v) T \<noteq> None"
  by (auto simp: lodash_set_def update_conv' split: list.splits)

lemma keys_lodash_set:
  "fst ` set (fields_of r T) \<subseteq> fst ` set (fields_of (lodash_set r q v) T)"
  by (auto simp: fields_of_lodash_set dom_update split: list.splits)

lemma distinct_lodash_set:
  "distinct (map fst (fields_of r T)) \<Longrightarrow> distinct (map fst (fields_of (lodash_set r q v) T))"
  by (auto simp: fields_of_lodash_set distinct_update split: list.splits)

lemma forEach_never:
  assumes "I s" "forEach body s es = Inr s'"
    and step: "\<And>s e s'. I s \<Longrightarrow> e \<in> set es \<Longrightarrow> body s e = Inr s' \<Longrightarrow> I s' \<and> obs s' = obs s"
  shows "obs s' = obs s \<and> I s'"
  using assms
proof (induction es arbitrary: s)
  case Nil
  then show ?case by simp
next
  case (Cons e es)
  from Cons.prems(2) obtain s1 where s1: "body s e = Inr s1" "forEach body s1 es = Inr s'"
    by (auto split: sum.splits)
  from Cons.prems(3)[OF Cons.prems(1) _ s1(1)] have a: "I s1" "obs s1 = obs s" by auto
  have "obs s' = obs s1 \<and> I s'"
    by (rule Cons.IH[OF a(1) s1(2)]) (use Cons.prems(3) in auto)
  with a show ?case by simp
qed


lemma forEach_once:
  assumes "distinct (map key es)" "e0 \<in> set es" "I s" "forEach body s es = Inr s'"
    and step: "\<And>s e s'. I s \<Longrightarrow> e \<in> set es \<Longrightarrow> body s e = Inr s' \<Longrightarrow>
                 I s' \<and> obs s' = (if key e = key e0 then h (obs s) else obs s)"
  shows "obs s' = h (obs s) \<and> I s'"
  using assms
proof (induction es arbitrary: s)
  case Nil
  then show ?case by simp
next
  case (Cons e es)
  from Cons.prems(4) obtain s1 where s1: "body s e = Inr s1" "forEach body s1 es = Inr s'"
    by (auto split: sum.splits)
  have "e \<in> set (e # es)" by simp
  from Cons.prems(5)[OF Cons.prems(3) this s1(1)]
  have a: "I s1" "obs s1 = (if key e = key e0 then h (obs s) else obs s)" by blast+
  have step': "\<And>s x s'. I s \<Longrightarrow> x \<in> set es \<Longrightarrow> body s x = Inr s' \<Longrightarrow>
                 I s' \<and> obs s' = (if key x = key e0 then h (obs s) else obs s)"
  proof -
    fix s x s' assume "I s" "x \<in> set es" "body s x = Inr s'"
    moreover have "x \<in> set (e # es)" using \<open>x \<in> set es\<close> by simp
    ultimately show "I s' \<and> obs s' = (if key x = key e0 then h (obs s) else obs s)"
      using Cons.prems(5) by blast
  qed
  show ?case
  proof (cases "key e = key e0")
    case True
    from Cons.prems(1) have "key e \<notin> key ` set es" by simp
    with True have ne: "\<And>x. x \<in> set es \<Longrightarrow> key x \<noteq> key e0" by (metis imageI)
    have "obs s' = obs s1 \<and> I s'"
    proof (rule forEach_never[where I = I and obs = obs, OF a(1) s1(2)])
      fix s x s' assume h: "I s" "x \<in> set es" "body s x = Inr s'"
      from step'[OF h] ne[OF h(2)] show "I s' \<and> obs s' = obs s" by simp
    qed
    with a True show ?thesis by simp
  next
    case False
    with Cons.prems(2) have in_es: "e0 \<in> set es" by auto
    from Cons.prems(1) have d: "distinct (map key es)" by simp
    have "obs s' = h (obs s1) \<and> I s'"
      by (rule Cons.IH[OF d in_es a(1) s1(2)]) (rule step')
    with a False show ?thesis by simp
  qed
qed


lemma forEach_total:
  assumes "I s"
    and "\<And>s e. I s \<Longrightarrow> e \<in> set es \<Longrightarrow> \<exists>s'. body s e = Inr s' \<and> I s'"
  shows "\<exists>s'. forEach body s es = Inr s' \<and> I s'"
  using assms
proof (induction es arbitrary: s)
  case Nil
  then show ?case by simp
next
  case (Cons e es)
  have "e \<in> set (e # es)" by simp
  from Cons.prems(2)[OF Cons.prems(1) this] obtain s1 where s1: "body s e = Inr s1" "I s1" by blast
  have "\<exists>s'. forEach body s1 es = Inr s' \<and> I s'"
  proof (rule Cons.IH[OF s1(2)])
    fix s x assume "I s" "x \<in> set es"
    moreover have "x \<in> set (e # es)" using \<open>x \<in> set es\<close> by simp
    ultimately show "\<exists>s'. body s x = Inr s' \<and> I s'" using Cons.prems(2) by blast
  qed
  with s1 show ?case by simp
qed

lemma composeField_eq:
  "composeField fns r p = Inr (lodash_set r p (applyComposers (asArray fns) (lodash_get r p)))"
  by (simp add: composeField_def chainFunctions_snoc applyComposers_def)

lemma preserved_present: "preserved (\<lambda>r. map_of r T \<noteq> None)"
  unfolding preserved_def using map_of_lodash_set_present by blast

lemma preserved_has_field: "preserved (\<lambda>r. F \<in> fst ` set (fields_of r T))"
  unfolding preserved_def using keys_lodash_set by blast

lemma preserved_distinct: "preserved (\<lambda>r. distinct (map fst (fields_of r T)))"
  unfolding preserved_def using distinct_lodash_set by blast

lemma preserved_conj: "preserved P \<Longrightarrow> preserved Q \<Longrightarrow> preserved (\<lambda>r. P r \<and> Q r)"
  unfolding preserved_def by blast

lemma preserved_wildcards: "preserved (\<lambda>r. wildcardTypesPresent r mapping)"
proof -
  have "wildcardTypesPresent (lodash_set r q v) mapping" if h: "wildcardTypesPresent r mapping"
    for r :: "'a IResolvers" and q v
    unfolding wildcardTypesPresent_def list_all_iff
  proof
    fix entry assume e: "entry \<in> set mapping"
    with h have c: "case js_split CHR ''.'' (fst entry) of
                  [T, F] \<Rightarrow> F = ''*'' \<longrightarrow> map_of r T \<noteq> None
                | _ \<Rightarrow> True"
      by (simp add: wildcardTypesPresent_def list_all_iff)
    show "case js_split CHR ''.'' (fst entry) of
                  [T, F] \<Rightarrow> F = ''*'' \<longrightarrow> map_of (lodash_set r q v) T \<noteq> None
                | _ \<Rightarrow> True"
      using c map_of_lodash_set_present[of r _ q v]
      by (simp split: list.splits)
  qed
  then show ?thesis unfolding preserved_def by blast
qed

lemma forEach_composeField_total:
  assumes "preserved P" "P r"
  shows "\<exists>r'. forEach (composeField fns) r ps = Inr r' \<and> P r'"
proof (rule forEach_total[where I = P, OF assms(2)])
  fix s e assume "P s"
  with assms(1) show "\<exists>s'. composeField fns s e = Inr s' \<and> P s'"
    by (simp add: composeField_eq preserved_def)
qed

lemma forEach_composeField_untouched:
  assumes "p \<notin> set ps" "forEach (composeField fns) r ps = Inr r'"
  shows "lodash_get r' p = lodash_get r p"
proof -
  have "lodash_get r' p = lodash_get r p \<and> True"
  proof (rule forEach_never[where I = "\<lambda>_. True" and obs = "\<lambda>r. lodash_get r p", OF _ assms(2)])
    fix s e s' assume h: "e \<in> set ps" "composeField fns s e = Inr s'"
    with assms(1) have "p \<noteq> e" by auto
    with h(2) show "True \<and> lodash_get s' p = lodash_get s p"
      by (auto simp: composeField_eq lodash_get_set_other)
  qed simp
  then show ?thesis by simp
qed

lemma forEach_composeField_touched:
  assumes "distinct ps" "p \<in> set ps" "js_split CHR ''.'' p = [T, F]"
    and "forEach (composeField fns) r ps = Inr r'"
  shows "lodash_get r' p = applyComposers (asArray fns) (lodash_get r p)"
proof -
  have d: "distinct (map (\<lambda>x. x) ps)" using assms(1) by simp
  have "lodash_get r' p = applyComposers (asArray fns) (lodash_get r p) \<and> True"
  proof (rule forEach_once[where I = "\<lambda>_. True" and obs = "\<lambda>r. lodash_get r p"
          and key = "\<lambda>x. x" and ?e0.0 = p, OF d assms(2) _ assms(4)])
    fix s e s' assume "composeField fns s e = Inr s'"
    then show "True \<and> lodash_get s' p = (if e = p then applyComposers (asArray fns) (lodash_get s p) else lodash_get s p)"
      using assms(3) by (auto simp: composeField_eq lodash_get_set_other lodash_get_set_same)
  qed simp
  then show ?thesis by simp
qed

lemma relevant_cases:
  "resolveRelevantMappings r q all = Inr ps \<Longrightarrow>
     ps = [] \<or> ps = [q] \<or>
     (\<exists>T fs. js_split CHR ''.'' q = [T, ''*''] \<and> map_of r T = Some fs \<and>
        ps = filter (\<lambda>m. map_of all m = None) (map (\<lambda>f. T @ ''.'' @ f) (map fst fs)))"
  by (auto simp: resolveRelevantMappings_def split: list.splits if_splits option.splits)

lemma composeEntry_skip:
  "length (js_split CHR ''.'' (fst e)) \<noteq> 2 \<Longrightarrow> composeEntry all r e = Inr r"
  by (auto simp: composeEntry_def resolveRelevantMappings_def split: list.splits)

lemma composeEntry_explicit:
  "js_split CHR ''.'' q = [T, F] \<Longrightarrow> F \<noteq> ''*'' \<Longrightarrow>
   composeEntry all r (q, fns) = Inr (lodash_set r q (applyComposers (asArray fns) (lodash_get r q)))"
  by (simp add: composeEntry_def resolveRelevantMappings_def composeField_eq)

lemma composeEntry_wildcard_absent:
  "js_split CHR ''.'' q = [T, ''*''] \<Longrightarrow> map_of r T = None \<Longrightarrow>
   composeEntry all r (q, fns) = Inl TypeError"
  by (simp add: composeEntry_def resolveRelevantMappings_def)

lemma composeEntry_preserved:
  assumes "preserved P" "P r" "composeEntry all r e = Inr r'"
  shows "P r'"
proof -
  from assms(3) obtain ps where ps: "forEach (composeField (snd e)) r ps = Inr r'"
    by (auto simp: composeEntry_def split: sum.splits)
  from forEach_composeField_total[OF assms(1,2), of "snd e" ps] ps show ?thesis by auto
qed

lemma composeEntry_total:
  assumes "wildcardTypesPresent r all" "e \<in> set all"
  shows "\<exists>r'. composeEntry all r e = Inr r'"
proof -
  have "\<exists>ps. resolveRelevantMappings r (fst e) all = Inr ps"
    using assms
    by (auto simp: wildcardTypesPresent_def list_all_iff resolveRelevantMappings_def
             split: list.splits option.splits)
  then obtain ps where ps: "resolveRelevantMappings r (fst e) all = Inr ps" by blast
  from forEach_composeField_total[of "\<lambda>_. True" r "snd e" ps]
  obtain r' where "forEach (composeField (snd e)) r ps = Inr r'"
    by (auto simp: preserved_def)
  with ps show ?thesis by (simp add: composeEntry_def)
qed

lemma composeResolvers_total:
  assumes "wildcardTypesPresent r mapping"
  shows "\<exists>r'. composeResolvers r mapping = Inr r'"
proof -
  have "\<exists>r'. forEach (composeEntry mapping) r mapping = Inr r' \<and> wildcardTypesPresent r' mapping"
  proof (rule forEach_total[where I = "\<lambda>r. wildcardTypesPresent r mapping", OF assms])
    fix s e assume h: "wildcardTypesPresent s mapping" "e \<in> set mapping"
    from composeEntry_total[OF h] obtain s' where s': "composeEntry mapping s e = Inr s'" by blast
    from composeEntry_preserved[OF preserved_wildcards h(1) s'] s'
    show "\<exists>s'. composeEntry mapping s e = Inr s' \<and> wildcardTypesPresent s' mapping" by blast
  qed
  then show ?thesis by (auto simp: composeResolvers_def)
qed


lemma forEach_append:
  "forEach body s (xs @ ys) =
     (case forEach body s xs of Inl e \<Rightarrow> Inl e | Inr s' \<Rightarrow> forEach body s' ys)"
  by (induction xs arbitrary: s) (auto split: sum.splits)

lemma dotted_eq:
  fixes c :: char
  assumes "a @ c # x = b @ c # y" "c \<notin> set a" "c \<notin> set b"
  shows "a = b \<and> x = y"
proof -
  have "js_split c (a @ c # x) = a # js_split c x" "js_split c (b @ c # y) = b # js_split c y"
    using assms(2,3) by (simp_all add: js_split_append)
  with assms(1) have "a = b" by simp
  with assms(1) show ?thesis by simp
qed

lemma composeEntry_untouched:
  assumes "composeEntry all r e = Inr r'" "resolveRelevantMappings r (fst e) all = Inr ps"
    "p \<notin> set ps"
  shows "lodash_get r' p = lodash_get r p"
  using assms forEach_composeField_untouched[of p ps "snd e" r r']
  by (simp add: composeEntry_def)

lemma composeEntry_relevant:
  assumes "composeEntry all r e = Inr r'"
  obtains ps where "resolveRelevantMappings r (fst e) all = Inr ps"
    "forEach (composeField (snd e)) r ps = Inr r'"
  using assms by (auto simp: composeEntry_def split: sum.splits)

lemma composeResolvers_explicit:
  assumes d: "distinct (map fst mapping)" and m: "(path, fns) \<in> set mapping"
    and sp: "js_split CHR ''.'' path = [T, F]" and ns: "F \<noteq> ''*''"
    and run: "composeResolvers r mapping = Inr r'"
  shows "lodash_get r' path = applyComposers (asArray fns) (lodash_get r path)"
proof -
  from m have key: "map_of mapping path \<noteq> None"
    using weak_map_of_SomeI[of path fns mapping] by auto
  have "lodash_get r' path = applyComposers (asArray fns) (lodash_get r path) \<and> True"
  proof (rule forEach_once[where I = "\<lambda>_. True" and obs = "\<lambda>r. lodash_get r path"
          and key = fst and ?e0.0 = "(path, fns)", OF d m _ run[unfolded composeResolvers_def]])
    fix s e s'
    assume e: "e \<in> set mapping" and st: "composeEntry mapping s e = Inr s'"
    show "True \<and> lodash_get s' path =
           (if fst e = fst (path, fns) then applyComposers (asArray fns) (lodash_get s path)
            else lodash_get s path)"
    proof (cases "fst e = path")
      case True
      then have "e = (path, snd e)" by (metis prod.collapse)
      with e m d have "snd e = fns" by (metis eq_key_imp_eq_value)
      with True have "e = (path, fns)" by (metis prod.collapse)
      with st composeEntry_explicit[OF sp ns, of mapping s fns]
      have "s' = lodash_set s path (applyComposers (asArray fns) (lodash_get s path))" by simp
      then show ?thesis using True by (simp add: lodash_get_set_same[OF sp])
    next
      case False
      from st obtain ps where ps: "resolveRelevantMappings s (fst e) mapping = Inr ps"
        by (rule composeEntry_relevant)
      from relevant_cases[OF ps] False key have "path \<notin> set ps" by auto
      from composeEntry_untouched[OF st ps this] False show ?thesis by simp
    qed
  qed simp
  then show ?thesis by simp
qed

lemma composeResolvers_wildcard:
  assumes d: "distinct (map fst mapping)" and m: "(T @ ''.*'', ws) \<in> set mapping"
    and T: "CHR ''.'' \<notin> set T" and F: "CHR ''.'' \<notin> set F"
    and present: "F \<in> fst ` set (fields_of r T)"
    and dist: "distinct (map fst (fields_of r T))"
    and nokey: "map_of mapping (T @ ''.'' @ F) = None"
    and run: "composeResolvers r mapping = Inr r'"
  shows "lodash_get r' (T @ ''.'' @ F) = applyComposers (asArray ws) (lodash_get r (T @ ''.'' @ F))"
proof -
  let ?p = "T @ ''.'' @ F"
  let ?I = "\<lambda>r. F \<in> fst ` set (fields_of r T) \<and> distinct (map fst (fields_of r T))"
  have pI: "preserved ?I" by (rule preserved_conj[OF preserved_has_field preserved_distinct])
  have sp: "js_split CHR ''.'' ?p = [T, F]" using T F js_split_two[of "CHR ''.''" T F] by simp
  have spw: "js_split CHR ''.'' (T @ ''.*'') = [T, ''*'']"
    using T js_split_two[of "CHR ''.''" T "''*''"] by simp
  have "lodash_get r' ?p = applyComposers (asArray ws) (lodash_get r ?p) \<and> ?I r'"
  proof (rule forEach_once[where I = ?I and obs = "\<lambda>r. lodash_get r ?p"
          and key = fst and ?e0.0 = "(T @ ''.*'', ws)", OF d m _ run[unfolded composeResolvers_def]])
    show "?I r" using present dist by simp
  next
    fix s e s'
    assume I: "?I s" and e: "e \<in> set mapping" and st: "composeEntry mapping s e = Inr s'"
    have I': "?I s'" by (rule composeEntry_preserved[OF pI I st])
    from st obtain ps where ps: "resolveRelevantMappings s (fst e) mapping = Inr ps"
      and fe: "forEach (composeField (snd e)) s ps = Inr s'"
      by (rule composeEntry_relevant)
    have "lodash_get s' ?p =
           (if fst e = T @ ''.*'' then applyComposers (asArray ws) (lodash_get s ?p)
            else lodash_get s ?p)"
    proof (cases "fst e = T @ ''.*''")
      case True
      then have "e = (T @ ''.*'', snd e)" by (metis prod.collapse)
      with e m d have sn: "snd e = ws" by (metis eq_key_imp_eq_value)
      from I obtain fs where fs: "map_of s T = Some fs"
        by (cases "map_of s T") (auto simp: fields_of_def)
      then have fo: "fields_of s T = fs" by (simp add: fields_of_def)
      from ps True spw fs
      have pseq: "ps = filter (\<lambda>m. map_of mapping m = None) (map (\<lambda>f. T @ ''.'' @ f) (map fst fs))"
        by (simp add: resolveRelevantMappings_def)
      have "inj_on (\<lambda>f. T @ ''.'' @ f) (set (map fst fs))" by (simp add: inj_on_def)
      moreover from I fo have "distinct (map fst fs)" by simp
      ultimately have "distinct (map (\<lambda>f. T @ ''.'' @ f) (map fst fs))"
        using distinct_map[of "\<lambda>f. T @ ''.'' @ f" "map fst fs"] by blast
      then have dps: "distinct ps" unfolding pseq by (rule distinct_filter)
      have "?p \<in> set ps" using I fo nokey unfolding pseq by auto
      from forEach_composeField_touched[OF dps this sp fe] sn True show ?thesis by simp
    next
      case False
      have "?p \<notin> set ps"
      proof
        assume pin: "?p \<in> set ps"
        from relevant_cases[OF ps] consider "ps = []" | "ps = [fst e]"
          | T' fs where "js_split CHR ''.'' (fst e) = [T', ''*'']" "map_of s T' = Some fs"
              "ps = filter (\<lambda>m. map_of mapping m = None) (map (\<lambda>f. T' @ ''.'' @ f) (map fst fs))"
          by blast
        then show False
        proof cases
          case 1
          with pin show False by simp
        next
          case 2
          with pin have "fst e = ?p" by simp
          with e have "?p \<in> fst ` set mapping" by (metis imageI)
          with nokey show False by (simp add: map_of_eq_None_iff)
        next
          case 3
          from js_split_twoD[OF 3(1)] have fe': "fst e = T' @ ''.*''" and T': "CHR ''.'' \<notin> set T'"
            by auto
          from pin 3(3) obtain f where "T @ ''.'' @ F = T' @ ''.'' @ f" by auto
          then have "T @ CHR ''.'' # F = T' @ CHR ''.'' # f" by simp
          from dotted_eq[OF this T T'] have "T = T'" by simp
          with fe' False show False by simp
        qed
      qed
      from forEach_composeField_untouched[OF this fe] False show ?thesis by simp
    qed
    with I' show "?I s' \<and> lodash_get s' ?p =
           (if fst e = fst (T @ ''.*'', ws) then applyComposers (asArray ws) (lodash_get s ?p)
            else lodash_get s ?p)" by simp
  qed
  then show ?thesis by simp
qed

lemma update_absent: "k \<notin> fst ` set al \<Longrightarrow> AList.update k v al = al @ [(k, v)]"
  by (induction al) auto

section \<open>Properties of the module getters\<close>

lemma those_map_Some: "those (map Some ys) = Some ys"
  by (induction ys) auto

lemma those_eq_Some: "those xs = Some ys \<longleftrightarrow> xs = map Some ys"
proof
  show "those xs = Some ys \<Longrightarrow> xs = map Some ys"
    by (induction xs arbitrary: ys) (auto split: option.splits)
qed (simp add: those_map_Some)

lemma those_eq_None: "those xs = None \<longleftrightarrow> None \<in> set xs"
  by (induction xs) (auto split: option.splits)

lemma those_map_cong_Some:
  assumes "\<And>x. x \<in> set xs \<Longrightarrow> f x = Some (g x)"
  shows "those (map f xs) = Some (map g xs)"
proof -
  have "map f xs = map Some (map g xs)" using assms by simp
  then show ?thesis by (simp add: those_eq_Some)
qed

lemma foldl_prepend: "foldl (\<lambda>acc ps. ps @ acc) a pss = concat (rev pss) @ a"
  by (induction pss arbitrary: a) auto

text \<open>A getter that returns within some depth returns the same value within any larger one.\<close>

lemma providers_mono:
  "providers k graph m = Some ps \<Longrightarrow> k \<le> k' \<Longrightarrow> providers k' graph m = Some ps"
proof (induction k arbitrary: k' m ps)
  case 0
  then show ?case by simp
next
  case (Suc k)
  from Suc.prems(2) obtain j where k': "k' = Suc j" "k \<le> j" by (cases k') auto
  from Suc.prems(1) obtain pss
    where pss: "those (map (providers k graph) (importsOf (graph m))) = Some pss"
      and ps: "ps = foldl (\<lambda>acc ps. ps @ acc) [] pss @ ownProviders (graph m)"
    by (auto split: option.splits)
  from pss have "map (providers k graph) (importsOf (graph m)) = map Some pss"
    by (simp add: those_eq_Some)
  then have "\<And>i. i \<in> set (importsOf (graph m)) \<Longrightarrow> \<exists>p. providers k graph i = Some p"
    by (metis (no_types, lifting) imageE image_eqI list.set_map)
  with Suc.IH k'(2)
  have "\<And>i. i \<in> set (importsOf (graph m)) \<Longrightarrow> providers j graph i = providers k graph i"
    by metis
  then have meq: "map (providers j graph) (importsOf (graph m)) =
                  map (providers k graph) (importsOf (graph m))"
    by simp
  show ?case unfolding k'(1) by (simp only: providers.simps meq pss ps option.case)
qed

lemma typeDefs_mono:
  "typeDefs k mg pr graph m = Some t \<Longrightarrow> k \<le> k' \<Longrightarrow> typeDefs k' mg pr graph m = Some t"
proof (induction k arbitrary: k' m t)
  case 0
  then show ?case by simp
next
  case (Suc k)
  from Suc.prems(2) obtain j where k': "k' = Suc j" "k \<le> j" by (cases k') auto
  from Suc.prems(1) obtain ts
    where ts: "those (map (typeDefs k mg pr graph) (importsOf (graph m))) = Some ts"
      and t: "t = mg (map SDL ts @ [ownTypeDefs mg pr (graph m)])"
    by (auto split: option.splits)
  from ts have "map (typeDefs k mg pr graph) (importsOf (graph m)) = map Some ts"
    by (simp add: those_eq_Some)
  then have "\<And>i. i \<in> set (importsOf (graph m)) \<Longrightarrow> \<exists>p. typeDefs k mg pr graph i = Some p"
    by (metis (no_types, lifting) imageE image_eqI list.set_map)
  with Suc.IH k'(2)
  have "\<And>i. i \<in> set (importsOf (graph m)) \<Longrightarrow>
          typeDefs j mg pr graph i = typeDefs k mg pr graph i"
    by metis
  then have meq: "map (typeDefs j mg pr graph) (importsOf (graph m)) =
                  map (typeDefs k mg pr graph) (importsOf (graph m))"
    by simp
  show ?case unfolding k'(1) by (simp only: typeDefs.simps meq ts t option.case)
qed

lemma providers_step:
  assumes "\<And>i. i \<in> set (importsOf (graph m)) \<Longrightarrow> providers depth graph i = Some (P i)"
  shows "providers (Suc depth) graph m =
           Some (concat (map P (rev (importsOf (graph m)))) @ ownProviders (graph m))"
proof -
  from assms
  have "those (map (providers depth graph) (importsOf (graph m))) = Some (map P (importsOf (graph m)))"
    by (rule those_map_cong_Some)
  then show ?thesis by (simp add: foldl_prepend rev_map)
qed

lemma typeDefs_step:
  assumes "\<And>i. i \<in> set (importsOf (graph m)) \<Longrightarrow> typeDefs depth mg pr graph i = Some (t i)"
  shows "typeDefs (Suc depth) mg pr graph m =
           Some (mg (map (\<lambda>i. SDL (t i)) (importsOf (graph m)) @ [ownTypeDefs mg pr (graph m)]))"
proof -
  from assms
  have "those (map (typeDefs depth mg pr graph) (importsOf (graph m))) =
          Some (map t (importsOf (graph m)))"
    by (rule those_map_cong_Some)
  then show ?thesis by (simp add: o_def)
qed

lemma typeDefs_leaf:
  "importsOf (graph c) = [] \<Longrightarrow>
   typeDefs (Suc depth) mg pr graph c = Some (mg [ownTypeDefs mg pr (graph c)])"
  by simp

lemma typeDefs_single:
  "importsOf (graph b) = [c] \<Longrightarrow> typeDefs depth mg pr graph c = Some t \<Longrightarrow>
   typeDefs (Suc depth) mg pr graph b = Some (mg [SDL t, ownTypeDefs mg pr (graph b)])"
  by simp

section \<open>The claims\<close>

subsection \<open>Resolver composition is not applied by the \<open>resolvers\<close> getter\<close>

text \<open>
  Claim C1 says that the \<open>resolvers\<close> getter wraps the module's own resolver map with
  \<open>composeResolvers\<close>, according to the module's \<open>resolversComposition\<close> option, before
  merging it with the maps of the imports. The getter never reads that option: whatever
  composition mappings the modules of a graph declare, the getter returns what it returns
  without them, the merge of the imports' maps and the unwrapped own map.
\<close>

theorem resolvers_ignore_resolversComposition:
  "resolvers depth mergeResolvers
     (\<lambda>i. (graph i)\<lparr>options := (options (graph i))\<lparr>optResolversComposition := composition i\<rparr>\<rparr>) m
   = resolvers depth mergeResolvers graph m"
proof (induction depth arbitrary: m)
  case 0
  show ?case by simp
next
  case (Suc depth)
  let ?graph = "\<lambda>i. (graph i)\<lparr>options := (options (graph i))\<lparr>optResolversComposition := composition i\<rparr>\<rparr>"
  have i: "importsOf (?graph m) = importsOf (graph m)"
    by (simp add: importsOf_def split: option.splits configurable.splits)
  have own: "ownResolvers (?graph m) = ownResolvers (graph m)"
    by (simp add: ownResolvers_def split: option.splits configurable.splits)
  have "map (resolvers depth mergeResolvers ?graph) (importsOf (graph m)) =
        map (resolvers depth mergeResolvers graph) (importsOf (graph m))"
    using Suc.IH by simp
  then show ?case by (simp only: resolvers.simps i own)
qed

theorem resolvers_ignore_resolversComposition_witness:
  "resolvers (Suc 0) concat
     (singleGraph (composedModule\<lparr>options := (options composedModule)
        \<lparr>optResolversComposition :=
           Some (Literal [(''Query.me'', Many [digitComposer 1, digitComposer 2])])\<rparr>\<rparr>)) 0
     = Some [(''Query'', [(''me'', Resolver 7)])] \<and>
   composeResolvers [(''Query'', [(''me'', Resolver 7)])]
     [(''Query.me'', Many [digitComposer 1, digitComposer 2])]
     = Inr [(''Query'', [(''me'', Resolver 721)])]"
proof -
  have c: "composeResolvers [(''Query'', [(''me'', Resolver 7)])]
     [(''Query.me'', Many [digitComposer 1, digitComposer 2])]
     = Inr [(''Query'', [(''me'', Resolver 721)])]"
    by (simp add: composeResolvers_def composeEntry_def resolveRelevantMappings_def
          composeField_def chainFunctions_def lodash_get_def lodash_set_def digitComposer_def)
  have g: "singleGraph (composedModule\<lparr>options := (options composedModule)
        \<lparr>optResolversComposition :=
           Some (Literal [(''Query.me'', Many [digitComposer 1, digitComposer 2])])\<rparr>\<rparr>)
     = (\<lambda>i. (singleGraph composedModule i)\<lparr>options := (options (singleGraph composedModule i))
        \<lparr>optResolversComposition :=
           Some (Literal [(''Query.me'', Many [digitComposer 1, digitComposer 2])])\<rparr>\<rparr>)"
    by (simp add: singleGraph_def fun_eq_iff)
  have "resolvers (Suc 0) concat (singleGraph composedModule) 0
          = Some [(''Query'', [(''me'', Resolver 7)])]"
    by (simp add: singleGraph_def composedModule_def exampleModule_def importsOf_def ownResolvers_def)
  with c show ?thesis
    unfolding g
    using resolvers_ignore_resolversComposition[where depth = "Suc 0" and mergeResolvers = concat
        and graph = "singleGraph composedModule" and m = 0 and composition =
        "\<lambda>_. Some (Literal [(''Query.me'', Many [digitComposer 1, digitComposer 2])])"]
    by simp
qed

subsection \<open>The composed context builder\<close>

text \<open>
  Claim C2 says that the composed context builder calls the context builder of every
  import, folds the results over the imports and merges the module's own result last.
  The getter calls \<open>reduce\<close> without an initial value, so with a single import the
  callback never runs: the import's builder is not called, the module instance of the
  import is what the own builder receives as current context, and only the own result
  is merged into \<open>builtResult\<close>. The result is the same in every graph that agrees on
  the module itself, whatever the imported module is.
\<close>

theorem contextBuilder_single_import:
  assumes "importsOf (graph m) = [b]"
  shows "contextBuilder (Suc depth) assign graph m request builtResult injectorRef h =
          (case (case optContextBuilder (options (graph m)) of
                   None \<Rightarrow> (\<lambda>_ _ _ h'. (CtxUndefined, h'))
                 | Some builder \<Rightarrow> builder) request (ModuleObject b) injectorRef h of
             (own, h2) \<Rightarrow>
               (case assign builtResult [own] h2 of
                  Inl e \<Rightarrow> Some (Inl e)
                | Inr h3 \<Rightarrow> Some (Inr (builtResult, h3))))
         \<and> (\<forall>graph'. graph' m = graph m \<longrightarrow>
               contextBuilder (Suc depth) assign graph' m request builtResult injectorRef h =
               contextBuilder (Suc depth) assign graph m request builtResult injectorRef h)"
  using assms
  by (simp add: reduceNoInitial_def)

theorem contextBuilder_single_import_witness:
  "importsOf (contextGraph 0 ::
      (unit, unit, nat, string, (string, nat, unit, referenceHeap) BuildContextFn) GraphQLModule) = [1] \<and>
   contextBuilder (Suc 0) referenceAssign contextGraph 0 ''request'' (Object 0) ()
       (emptyHeap(Object 0 := [(''injector'', ''Injector'')])) =
     Some (Inr (Object 0,
                emptyHeap(Object 0 := [(''injector'', ''Injector'')],
                          Object 1 := [(''user'', ''me'')],
                          Object 0 := [(''injector'', ''Injector''), (''user'', ''me'')])))"
proof -
  have h: "importsOf (contextGraph 0 ::
      (unit, unit, nat, string, (string, nat, unit, referenceHeap) BuildContextFn) GraphQLModule) = [1]"
    by (simp add: contextGraph_def exampleModule_def importsOf_def)
  from contextBuilder_single_import[where graph = contextGraph and m = 0, OF h,
      where depth = 0 and assign = referenceAssign and request = "''request''"
        and builtResult = "Object 0" and injectorRef = "()"
        and h = "emptyHeap(Object 0 := [(''injector'', ''Injector'')])"]
  have "contextBuilder (Suc 0) referenceAssign contextGraph 0 ''request'' (Object 0) ()
           (emptyHeap(Object 0 := [(''injector'', ''Injector'')])) =
        Some (Inr (Object 0,
                emptyHeap(Object 0 := [(''injector'', ''Injector'')],
                          Object 1 := [(''user'', ''me'')],
                          Object 0 := [(''injector'', ''Injector''), (''user'', ''me'')])))"
    by (simp add: contextGraph_def exampleModule_def fieldBuilder_def referenceAssign_def)
  with h show ?thesis by simp
qed

subsection \<open>The order of the flattened providers\<close>

text \<open>
  Claim C3 says that the \<open>providers\<close> getter lists the flattened providers of the
  imports in import order, then the module's own. The getter prepends each import's
  list to the accumulator, so for a module importing B and C the list of C comes before
  the list of B.
\<close>

theorem providers_import_order_counterexample:
  "importsOf (fanGraph 0 :: (unit, unit, nat, string, unit) GraphQLModule) = [1, 2] \<and>
   providers (Suc 0) (fanGraph :: (unit, unit, nat, string, unit) moduleGraph) 1 =
     Some [ValueProvider (SymbolFor ''ModuleConfig.B'') (), Declared ''BService''] \<and>
   providers (Suc 0) (fanGraph :: (unit, unit, nat, string, unit) moduleGraph) 2 =
     Some [ValueProvider (SymbolFor ''ModuleConfig.C'') (), Declared ''CService''] \<and>
   providers (Suc (Suc 0)) (fanGraph :: (unit, unit, nat, string, unit) moduleGraph) 0 =
     Some [ValueProvider (SymbolFor ''ModuleConfig.C'') (), Declared ''CService'',
           ValueProvider (SymbolFor ''ModuleConfig.B'') (), Declared ''BService'',
           ValueProvider (SymbolFor ''ModuleConfig.A'') (), Declared ''AService''] \<and>
   providers (Suc (Suc 0)) (fanGraph :: (unit, unit, nat, string, unit) moduleGraph) 0 \<noteq>
     Some [ValueProvider (SymbolFor ''ModuleConfig.B'') (), Declared ''BService'',
           ValueProvider (SymbolFor ''ModuleConfig.C'') (), Declared ''CService'',
           ValueProvider (SymbolFor ''ModuleConfig.A'') (), Declared ''AService'']"
  by (simp add: fanGraph_def exampleModule_def importsOf_def ownProviders_def ModuleConfig_def)

text \<open>
  Claim C3, amended: when the getter of every import returns within some depth, the
  \<open>providers\<close> getter of the module returns, within one more level and within any depth
  beyond that, the flattened providers of the imports in reverse import order (the last
  import's whole list first), followed by the module's own list: the auto-registered
  \<open>ModuleConfig\<close> provider bound to the module's config, then the declared providers, a
  function being applied to the config.
\<close>

theorem providers_imports_reversed_then_own:
  assumes "\<forall>i\<in>set (importsOf (graph m)). providers depth graph i = Some (P i)"
    and "Suc depth \<le> k"
  shows "providers k graph m =
           Some (concat (map P (rev (importsOf (graph m)))) @
                 ValueProvider (SymbolFor (''ModuleConfig.'' @ optName (options (graph m))))
                   (moduleConfig (graph m)) #
                 map Declared
                   (case optProviders (options (graph m)) of
                      None \<Rightarrow> []
                    | Some (Literal ps) \<Rightarrow> ps
                    | Some (Computed f) \<Rightarrow> f (moduleConfig (graph m))))"
proof -
  have own: "ownProviders (graph m) =
      ValueProvider (SymbolFor (''ModuleConfig.'' @ optName (options (graph m))))
                   (moduleConfig (graph m)) #
                 map Declared
                   (case optProviders (options (graph m)) of
                      None \<Rightarrow> []
                    | Some (Literal ps) \<Rightarrow> ps
                    | Some (Computed f) \<Rightarrow> f (moduleConfig (graph m)))"
    by (simp add: ownProviders_def ModuleConfig_def split: option.splits configurable.splits)
  from assms(1)
  have "\<And>i. i \<in> set (importsOf (graph m)) \<Longrightarrow> providers depth graph i = Some (P i)"
    by blast
  from providers_step[of graph m depth P, OF this]
  have "providers (Suc depth) graph m =
          Some (concat (map P (rev (importsOf (graph m)))) @ ownProviders (graph m))" .
  from providers_mono[OF this assms(2)] show ?thesis unfolding own by simp
qed

theorem providers_imports_reversed_then_own_witness:
  "providers (Suc 0) (fanGraph :: (unit, unit, nat, string, unit) moduleGraph) 1 =
     Some [ValueProvider (SymbolFor ''ModuleConfig.B'') (), Declared ''BService''] \<and>
   providers (Suc 0) (fanGraph :: (unit, unit, nat, string, unit) moduleGraph) 2 =
     Some [ValueProvider (SymbolFor ''ModuleConfig.C'') (), Declared ''CService''] \<and>
   Suc (Suc 0) \<le> 5 \<and>
   providers 5 (fanGraph :: (unit, unit, nat, string, unit) moduleGraph) 0 =
     Some [ValueProvider (SymbolFor ''ModuleConfig.C'') (), Declared ''CService'',
           ValueProvider (SymbolFor ''ModuleConfig.B'') (), Declared ''BService'',
           ValueProvider (SymbolFor ''ModuleConfig.A'') (), Declared ''AService'']"
proof -
  let ?g = "fanGraph :: (unit, unit, nat, string, unit) moduleGraph"
  let ?P = "\<lambda>i::nat. [ValueProvider (SymbolFor (''ModuleConfig.'' @ (if i = 1 then ''B'' else ''C''))) (),
                       Declared ((if i = 1 then ''B'' else ''C'') @ ''Service'')]"
  have p: "providers (Suc 0) ?g 1 = Some (?P 1)" "providers (Suc 0) ?g 2 = Some (?P 2)"
    by (simp_all add: fanGraph_def exampleModule_def importsOf_def ownProviders_def ModuleConfig_def)
  have i: "importsOf (?g 0) = [1, 2]"
    by (simp add: fanGraph_def exampleModule_def importsOf_def)
  have h: "\<forall>i\<in>set (importsOf (?g 0)). providers (Suc 0) ?g i = Some (?P i)"
    unfolding i using p by simp
  have k: "Suc (Suc 0) \<le> 5" by simp
  from providers_imports_reversed_then_own[where graph = ?g and m = 0 and P = ?P, OF h k]
  have "providers 5 ?g 0 =
     Some [ValueProvider (SymbolFor ''ModuleConfig.C'') (), Declared ''CService'',
           ValueProvider (SymbolFor ''ModuleConfig.B'') (), Declared ''BService'',
           ValueProvider (SymbolFor ''ModuleConfig.A'') (), Declared ''AService'']"
    unfolding i by (simp add: fanGraph_def exampleModule_def)
  with p k show ?thesis by simp
qed

subsection \<open>Cyclic imports\<close>

text \<open>
  Claim C4 says that a getter evaluated on a module whose import graph has a cycle
  raises \<open>CyclicImportError\<close>. The getters have no cycle detection: for a module in a set
  of modules each of which imports a member of the set (A imports B and B imports A,
  for one), \<open>providers\<close>, \<open>typeDefs\<close>, \<open>resolvers\<close> and \<open>injector\<close> return nothing and raise
  nothing within any depth of recursion.
\<close>

theorem cyclic_imports_never_return:
  assumes "m \<in> C" and "\<forall>x\<in>C. \<exists>y\<in>set (importsOf (graph x)). y \<in> C"
  shows "providers depth graph m = None \<and>
         typeDefs depth mergeGraphQLSchemas print graph m = None \<and>
         resolvers depth mergeResolvers graph m = None \<and>
         injector depth Injector graph m = None"
proof -
  have p: "providers depth graph m = None" using assms(1)
  proof (induction depth arbitrary: m)
    case 0
    show ?case by simp
  next
    case (Suc depth)
    from assms(2) Suc.prems obtain y where y: "y \<in> set (importsOf (graph m))" "y \<in> C" by blast
    from Suc.IH[OF y(2)] y(1) have "None \<in> set (map (providers depth graph) (importsOf (graph m)))"
      by force
    then show ?case by (simp add: those_eq_None[symmetric] del: set_map)
  qed
  have t: "typeDefs depth mergeGraphQLSchemas print graph m = None" using assms(1)
  proof (induction depth arbitrary: m)
    case 0
    show ?case by simp
  next
    case (Suc depth)
    from assms(2) Suc.prems obtain y where y: "y \<in> set (importsOf (graph m))" "y \<in> C" by blast
    from Suc.IH[OF y(2)] y(1)
    have "None \<in> set (map (typeDefs depth mergeGraphQLSchemas print graph) (importsOf (graph m)))"
      by force
    then show ?case by (simp add: those_eq_None[symmetric] del: set_map)
  qed
  have r: "resolvers depth mergeResolvers graph m = None" using assms(1)
  proof (induction depth arbitrary: m)
    case 0
    show ?case by simp
  next
    case (Suc depth)
    from assms(2) Suc.prems obtain y where y: "y \<in> set (importsOf (graph m))" "y \<in> C" by blast
    from Suc.IH[OF y(2)] y(1)
    have "None \<in> set (map (resolvers depth mergeResolvers graph) (importsOf (graph m)))"
      by force
    then show ?case by (simp add: those_eq_None[symmetric] del: set_map)
  qed
  from p t r show ?thesis by (simp add: injector_def)
qed

theorem cyclic_imports_never_return_witness:
  "(0::nat) \<in> {0, 1} \<and>
   importsOf (cycleGraph 0 :: (unit, unit, nat, string, unit) GraphQLModule) = [1] \<and>
   importsOf (cycleGraph 1 :: (unit, unit, nat, string, unit) GraphQLModule) = [0] \<and>
   providers 7 (cycleGraph :: (unit, unit, nat, string, unit) moduleGraph) 0 = None \<and>
   typeDefs 7 joinFragments printNothing (cycleGraph :: (unit, unit, nat, string, unit) moduleGraph) 0 = None \<and>
   resolvers 7 concat (cycleGraph :: (unit, unit, nat, string, unit) moduleGraph) 0 = None \<and>
   injector 7 listInjector (cycleGraph :: (unit, unit, nat, string, unit) moduleGraph) 0 = None"
proof -
  let ?g = "cycleGraph :: (unit, unit, nat, string, unit) moduleGraph"
  have i: "importsOf (?g 0) = [1]" "importsOf (?g 1) = [0]"
    by (simp_all add: cycleGraph_def exampleModule_def importsOf_def)
  then have h: "\<forall>x\<in>{0, 1}. \<exists>y\<in>set (importsOf (?g x)). y \<in> {0, 1}" by simp
  have m: "(0::nat) \<in> {0, 1}" by simp
  from cyclic_imports_never_return[OF m h, of 7 joinFragments printNothing concat listInjector] m i
  show ?thesis by simp
qed

subsection \<open>Composer order\<close>

text \<open>
  Claim C5: for a resolver map and a composer list \<open>[f, g]\<close> mapped to the path of a
  field, the resolver that \<open>composeResolvers\<close> installs at the path is \<open>f (g original)\<close>:
  the last-listed function receives the original resolver, and the first-listed one is
  outermost. This holds for the chain built by \<open>chainFunctions\<close> and for the whole
  composition, whatever other entries the mapping has, as long as no wildcard entry
  names a missing type (the composition then returns a resolver map).
\<close>

theorem composeResolvers_first_listed_outermost:
  assumes "distinct (map fst mapping)" and "(path, Many [f, g]) \<in> set mapping"
    and "js_split CHR ''.'' path = [T, F]" and "F \<noteq> ''*''"
    and "wildcardTypesPresent r mapping"
  shows "chainFunctions [f, g, (\<lambda>_. lodash_get r path)] = Inr (\<lambda>args. f (g (lodash_get r path))) \<and>
         (\<exists>r'. composeResolvers r mapping = Inr r' \<and>
               lodash_get r' path = f (g (lodash_get r path)))"
proof -
  from composeResolvers_total[OF assms(5)] obtain r' where r': "composeResolvers r mapping = Inr r'"
    by blast
  from composeResolvers_explicit[OF assms(1-4) r']
  have "lodash_get r' path = f (g (lodash_get r path))" by (simp add: applyComposers_def)
  with r' show ?thesis by (simp add: chainFunctions_def)
qed

theorem composeResolvers_first_listed_outermost_witness:
  "distinct (map fst [(''Query.me'', Many [digitComposer 1, digitComposer 2])]) \<and>
   (''Query.me'', Many [digitComposer 1, digitComposer 2])
      \<in> set [(''Query.me'', Many [digitComposer 1, digitComposer 2])] \<and>
   js_split CHR ''.'' ''Query.me'' = [''Query'', ''me''] \<and> ''me'' \<noteq> ''*'' \<and>
   wildcardTypesPresent [(''Query'', [(''me'', Resolver 7)])]
      [(''Query.me'', Many [digitComposer 1, digitComposer 2])] \<and>
   composeResolvers [(''Query'', [(''me'', Resolver 7)])]
      [(''Query.me'', Many [digitComposer 1, digitComposer 2])]
     = Inr [(''Query'', [(''me'', Resolver 721)])] \<and>
   lodash_get [(''Query'', [(''me'', Resolver (721::nat))])] ''Query.me''
     = digitComposer 1 (digitComposer 2 (Resolver 7))"
proof -
  have h: "distinct (map fst [(''Query.me'', Many [digitComposer 1, digitComposer 2])])"
    "(''Query.me'', Many [digitComposer 1, digitComposer 2])
      \<in> set [(''Query.me'', Many [digitComposer 1, digitComposer 2])]"
    "js_split CHR ''.'' ''Query.me'' = [''Query'', ''me'']" "''me'' \<noteq> ''*''"
    "wildcardTypesPresent [(''Query'', [(''me'', Resolver 7)])]
      [(''Query.me'', Many [digitComposer 1, digitComposer 2])]"
    by (simp_all add: wildcardTypesPresent_def)
  have c: "composeResolvers [(''Query'', [(''me'', Resolver 7)])]
      [(''Query.me'', Many [digitComposer 1, digitComposer 2])]
     = Inr [(''Query'', [(''me'', Resolver 721)])]"
    by (simp add: composeResolvers_def composeEntry_def resolveRelevantMappings_def
          composeField_def chainFunctions_def lodash_get_def lodash_set_def digitComposer_def)
  from composeResolvers_first_listed_outermost[OF h]
  have "lodash_get [(''Query'', [(''me'', Resolver (721::nat))])] ''Query.me''
     = digitComposer 1 (digitComposer 2 (lodash_get [(''Query'', [(''me'', Resolver 7)])] ''Query.me''))"
    unfolding c by simp
  then have "lodash_get [(''Query'', [(''me'', Resolver (721::nat))])] ''Query.me''
     = digitComposer 1 (digitComposer 2 (Resolver 7))"
    by (simp add: lodash_get_def)
  with h c show ?thesis by blast
qed

subsection \<open>Wildcard expansion\<close>

text \<open>
  Claim C6: a wildcard entry \<open>Type.*\<close> expands to exactly the fields present on the type
  in the resolver map that have no entry of their own in the mapping, in whatever order
  the mapping lists its entries, and every expanded field is wrapped with the
  wildcard's composer list. The statement is for a type that is present in the resolver
  map (on a missing type the entry throws, see claim C9) and whose field names are
  names (no dot, not \<open>*\<close>). Then: the fields the wildcard entry selects are those
  without an entry of their own; the selection depends only on the set of entries; the
  wildcard entry itself wraps each selected field with its composers, the one function
  \<open>c\<close> as \<open>c original\<close>, the list \<open>[c1, ..., cn]\<close> as \<open>c1 (... (cn original))\<close>, and leaves
  the fields with an entry of their own as they are; and whenever the whole composition
  returns, which it does when no wildcard entry names a missing type, every field of
  the type holds its original resolver wrapped once, with the composers of its own
  entry when it has one and with the wildcard's composers otherwise.
\<close>

theorem wildcard_expands_to_unmapped_fields:
  assumes T: "CHR ''.'' \<notin> set T" and fs: "map_of r T = Some fs"
    and dist: "distinct (map fst fs)"
    and names: "\<forall>f\<in>set (map fst fs). CHR ''.'' \<notin> set f \<and> f \<noteq> ''*''"
    and d: "distinct (map fst mapping)" and w: "(T @ ''.*'', ws) \<in> set mapping"
  shows "resolveRelevantMappings r (T @ ''.*'') mapping =
           Inr (map (\<lambda>f. T @ ''.'' @ f)
                  (filter (\<lambda>f. \<not> (\<exists>fns. (T @ ''.'' @ f, fns) \<in> set mapping)) (map fst fs))) \<and>
         (\<forall>mapping'. set mapping' = set mapping \<longrightarrow>
            resolveRelevantMappings r (T @ ''.*'') mapping' =
            resolveRelevantMappings r (T @ ''.*'') mapping) \<and>
         (\<exists>r1. composeEntry mapping r (T @ ''.*'', ws) = Inr r1 \<and>
            (\<forall>f\<in>set (map fst fs).
               lodash_get r1 (T @ ''.'' @ f) =
                 (if \<exists>fns. (T @ ''.'' @ f, fns) \<in> set mapping then lodash_get r (T @ ''.'' @ f)
                  else (case ws of
                          Single c \<Rightarrow> c (lodash_get r (T @ ''.'' @ f))
                        | Many cs \<Rightarrow> foldr (\<lambda>c x. c x) cs (lodash_get r (T @ ''.'' @ f)))))) \<and>
         (\<forall>r'. composeResolvers r mapping = Inr r' \<longrightarrow>
            (\<forall>f\<in>set (map fst fs).
               lodash_get r' (T @ ''.'' @ f) =
                 (case map_of mapping (T @ ''.'' @ f) of
                    None \<Rightarrow>
                      (case ws of
                         Single c \<Rightarrow> c (lodash_get r (T @ ''.'' @ f))
                       | Many cs \<Rightarrow> foldr (\<lambda>c x. c x) cs (lodash_get r (T @ ''.'' @ f)))
                  | Some (Single c) \<Rightarrow> c (lodash_get r (T @ ''.'' @ f))
                  | Some (Many cs) \<Rightarrow> foldr (\<lambda>c x. c x) cs (lodash_get r (T @ ''.'' @ f))))) \<and>
         (wildcardTypesPresent r mapping \<longrightarrow> (\<exists>r'. composeResolvers r mapping = Inr r'))"
proof -
  let ?sel = "filter (\<lambda>f. \<not> (\<exists>fns. (T @ ''.'' @ f, fns) \<in> set mapping)) (map fst fs)"
  let ?ps = "map (\<lambda>f. T @ ''.'' @ f) ?sel"
  have spw: "js_split CHR ''.'' (T @ ''.*'') = [T, ''*'']"
    using T js_split_two[of "CHR ''.''" T "''*''"] by simp
  have key: "(map_of m x = None) = (\<not> (\<exists>fns. (x, fns) \<in> set m))"
    for m :: "'a IResolversComposerMapping" and x
    by (force simp: map_of_eq_None_iff)
  have a: "resolveRelevantMappings r (T @ ''.*'') mapping = Inr ?ps"
    by (simp add: resolveRelevantMappings_def spw fs filter_map o_def key)
  have b: "resolveRelevantMappings r (T @ ''.*'') mapping' =
            resolveRelevantMappings r (T @ ''.*'') mapping"
    if "set mapping' = set mapping" for mapping'
    using that by (simp add: resolveRelevantMappings_def spw fs key)
  have sp: "js_split CHR ''.'' (T @ ''.'' @ f) = [T, f]" if "f \<in> set (map fst fs)" for f
  proof -
    from names that have "CHR ''.'' \<notin> set f" by blast
    with T show ?thesis using js_split_two[of "CHR ''.''" T f] by simp
  qed
  have e: "\<exists>r1. composeEntry mapping r (T @ ''.*'', ws) = Inr r1 \<and>
            (\<forall>f\<in>set (map fst fs).
               lodash_get r1 (T @ ''.'' @ f) =
                 (if \<exists>fns. (T @ ''.'' @ f, fns) \<in> set mapping then lodash_get r (T @ ''.'' @ f)
                  else (case ws of
                          Single c \<Rightarrow> c (lodash_get r (T @ ''.'' @ f))
                        | Many cs \<Rightarrow> foldr (\<lambda>c x. c x) cs (lodash_get r (T @ ''.'' @ f)))))"
  proof -
    from forEach_composeField_total[of "\<lambda>_. True" r ws ?ps]
    obtain r1 where r1: "forEach (composeField ws) r ?ps = Inr r1"
      by (auto simp: preserved_def)
    then have ce: "composeEntry mapping r (T @ ''.*'', ws) = Inr r1"
      by (simp add: composeEntry_def a)
    have inj: "inj_on (\<lambda>f. T @ ''.'' @ f) (set ?sel)" by (simp add: inj_on_def)
    have "distinct ?sel" using dist by (rule distinct_filter)
    with inj have dps: "distinct ?ps" using distinct_map[of "\<lambda>f. T @ ''.'' @ f" ?sel] by blast
    have v: "lodash_get r1 (T @ ''.'' @ f) =
                 (if \<exists>fns. (T @ ''.'' @ f, fns) \<in> set mapping then lodash_get r (T @ ''.'' @ f)
                  else (case ws of
                          Single c \<Rightarrow> c (lodash_get r (T @ ''.'' @ f))
                        | Many cs \<Rightarrow> foldr (\<lambda>c x. c x) cs (lodash_get r (T @ ''.'' @ f))))"
      if f: "f \<in> set (map fst fs)" for f
    proof (cases "\<exists>fns. (T @ ''.'' @ f, fns) \<in> set mapping")
      case True
      have "T @ ''.'' @ f \<notin> set ?ps"
      proof
        assume "T @ ''.'' @ f \<in> set ?ps"
        then obtain g where g: "g \<in> set ?sel" "T @ ''.'' @ f = T @ ''.'' @ g" by auto
        then have "g = f" by simp
        with g(1) True show False by simp
      qed
      from forEach_composeField_untouched[OF this r1] True show ?thesis by simp
    next
      case False
      with f have "f \<in> set ?sel" by simp
      then have "T @ ''.'' @ f \<in> set ?ps" by force
      from forEach_composeField_touched[OF dps this sp[OF f] r1] False
      show ?thesis by (cases ws) (simp_all add: applyComposers_def)
    qed
    from ce v show ?thesis by blast
  qed
  have c: "lodash_get r' (T @ ''.'' @ f) =
                 (case map_of mapping (T @ ''.'' @ f) of
                    None \<Rightarrow>
                      (case ws of
                         Single c \<Rightarrow> c (lodash_get r (T @ ''.'' @ f))
                       | Many cs \<Rightarrow> foldr (\<lambda>c x. c x) cs (lodash_get r (T @ ''.'' @ f)))
                  | Some (Single c) \<Rightarrow> c (lodash_get r (T @ ''.'' @ f))
                  | Some (Many cs) \<Rightarrow> foldr (\<lambda>c x. c x) cs (lodash_get r (T @ ''.'' @ f)))"
    if r': "composeResolvers r mapping = Inr r'" and f: "f \<in> set (map fst fs)" for r' f
  proof (cases "map_of mapping (T @ ''.'' @ f)")
    case None
    from names f have F: "CHR ''.'' \<notin> set f" by blast
    have present: "f \<in> fst ` set (fields_of r T)" using f fs by (simp add: fields_of_def)
    have dist': "distinct (map fst (fields_of r T))" using dist fs by (simp add: fields_of_def)
    from composeResolvers_wildcard[OF d w T F present dist' None r'] None
    show ?thesis by (cases ws) (simp_all add: applyComposers_def)
  next
    case (Some fns)
    then have m: "(T @ ''.'' @ f, fns) \<in> set mapping" by (rule map_of_SomeD)
    from names f have F: "f \<noteq> ''*''" by blast
    from composeResolvers_explicit[OF d m sp[OF f] F r'] Some
    show ?thesis by (cases fns) (simp_all add: applyComposers_def)
  qed
  have t: "\<exists>r'. composeResolvers r mapping = Inr r'" if "wildcardTypesPresent r mapping"
    using that by (rule composeResolvers_total)
  from a b e c t show ?thesis by blast
qed

theorem wildcard_expands_to_unmapped_fields_witness:
  "CHR ''.'' \<notin> set ''Query'' \<and>
   map_of [(''Query'', [(''a'', Resolver 1), (''b'', Resolver 2)])] ''Query''
     = Some [(''a'', Resolver 1), (''b'', Resolver 2)] \<and>
   distinct (map fst [(''a'', Resolver (1::nat)), (''b'', Resolver 2)]) \<and>
   CHR ''.'' \<notin> set ''a'' \<and> ''a'' \<noteq> ''*'' \<and> CHR ''.'' \<notin> set ''b'' \<and> ''b'' \<noteq> ''*'' \<and>
   distinct (map fst [(''Query.*'', Many [digitComposer 5, digitComposer 6, digitComposer 4]),
                      (''Query.a'', Many [digitComposer 3, digitComposer 8, digitComposer 9])]) \<and>
   (''Query.*'', Many [digitComposer 5, digitComposer 6, digitComposer 4])
      \<in> set [(''Query.*'', Many [digitComposer 5, digitComposer 6, digitComposer 4]),
              (''Query.a'', Many [digitComposer 3, digitComposer 8, digitComposer 9])] \<and>
   wildcardTypesPresent [(''Query'', [(''a'', Resolver 1), (''b'', Resolver 2)])]
      [(''Query.*'', Many [digitComposer 5, digitComposer 6, digitComposer 4]),
       (''Query.a'', Many [digitComposer 3, digitComposer 8, digitComposer 9])] \<and>
   resolveRelevantMappings [(''Query'', [(''a'', Resolver 1), (''b'', Resolver 2)])] ''Query.*''
      [(''Query.*'', Many [digitComposer 5, digitComposer 6, digitComposer 4]),
       (''Query.a'', Many [digitComposer 3, digitComposer 8, digitComposer 9])]
     = Inr [''Query.b''] \<and>
   composeEntry
      [(''Query.*'', Many [digitComposer 5, digitComposer 6, digitComposer 4]),
       (''Query.a'', Many [digitComposer 3, digitComposer 8, digitComposer 9])]
      [(''Query'', [(''a'', Resolver 1), (''b'', Resolver 2)])]
      (''Query.*'', Many [digitComposer 5, digitComposer 6, digitComposer 4])
     = Inr [(''Query'', [(''a'', Resolver 1), (''b'', Resolver 2465)])] \<and>
   composeResolvers [(''Query'', [(''a'', Resolver 1), (''b'', Resolver 2)])]
      [(''Query.*'', Many [digitComposer 5, digitComposer 6, digitComposer 4]),
       (''Query.a'', Many [digitComposer 3, digitComposer 8, digitComposer 9])]
     = Inr [(''Query'', [(''a'', Resolver 1983), (''b'', Resolver 2465)])] \<and>
   Resolver 2465 = digitComposer 5 (digitComposer 6 (digitComposer 4 (Resolver 2))) \<and>
   Resolver 1983 = digitComposer 3 (digitComposer 8 (digitComposer 9 (Resolver 1)))"
proof -
  let ?r = "[(''Query'', [(''a'', Resolver (1::nat)), (''b'', Resolver 2)])]"
  let ?ws = "Many [digitComposer 5, digitComposer 6, digitComposer 4]"
  let ?m = "[(''Query.*'', ?ws),
             (''Query.a'', Many [digitComposer 3, digitComposer 8, digitComposer 9])]"
  have h: "CHR ''.'' \<notin> set ''Query''"
    "map_of ?r ''Query'' = Some [(''a'', Resolver 1), (''b'', Resolver 2)]"
    "distinct (map fst [(''a'', Resolver (1::nat)), (''b'', Resolver 2)])"
    "\<forall>f\<in>set (map fst [(''a'', Resolver (1::nat)), (''b'', Resolver 2)]). CHR ''.'' \<notin> set f \<and> f \<noteq> ''*''"
    "distinct (map fst ?m)" "(''Query'' @ ''.*'', ?ws) \<in> set ?m"
    by simp_all
  have p: "wildcardTypesPresent ?r ?m" by (simp add: wildcardTypesPresent_def)
  have ce: "composeEntry ?m ?r (''Query.*'', ?ws)
              = Inr [(''Query'', [(''a'', Resolver 1), (''b'', Resolver 2465)])]"
    by (simp add: composeEntry_def resolveRelevantMappings_def
          composeField_def chainFunctions_def lodash_get_def lodash_set_def digitComposer_def)
  have cr: "composeResolvers ?r ?m
              = Inr [(''Query'', [(''a'', Resolver 1983), (''b'', Resolver 2465)])]"
    by (simp add: composeResolvers_def composeEntry_def resolveRelevantMappings_def
          composeField_def chainFunctions_def lodash_get_def lodash_set_def digitComposer_def)
  note t = wildcard_expands_to_unmapped_fields[where T = "''Query''", OF h]
  from t have e: "resolveRelevantMappings ?r ''Query.*'' ?m = Inr [''Query.b'']"
    by simp
  from t cr have "lodash_get [(''Query'', [(''a'', Resolver (1983::nat)), (''b'', Resolver 2465)])]
                    (''Query'' @ ''.'' @ ''b'')
                  = digitComposer 5 (digitComposer 6 (digitComposer 4 (lodash_get ?r (''Query'' @ ''.'' @ ''b''))))"
    by simp
  then have vb: "Resolver 2465 = digitComposer 5 (digitComposer 6 (digitComposer 4 (Resolver 2)))"
    by (simp add: lodash_get_def)
  from t cr have "lodash_get [(''Query'', [(''a'', Resolver (1983::nat)), (''b'', Resolver 2465)])]
                    (''Query'' @ ''.'' @ ''a'')
                  = digitComposer 3 (digitComposer 8 (digitComposer 9 (lodash_get ?r (''Query'' @ ''.'' @ ''a''))))"
    by simp
  then have va: "Resolver 1983 = digitComposer 3 (digitComposer 8 (digitComposer 9 (Resolver 1)))"
    by (simp add: lodash_get_def)
  from h p e ce cr va vb show ?thesis by simp
qed

subsection \<open>The context entry point\<close>

text \<open>
  Claim C8 says that \<open>context(request)\<close> returns the aggregate for every module, a module
  without imports included. For a module without imports the composed context builder
  calls \<open>reduce\<close> on an empty array without an initial value: the promise is rejected
  with a \<open>TypeError\<close>, whatever the injector, the request and the heap are.
\<close>

theorem context_without_imports_rejects:
  assumes "importsOf (graph m) = []"
  shows "moduleContext (Suc depth) Injector assign newAggregate graph m request h =
           Some (Inl TypeError)"
  using assms
  by (simp add: moduleContext_def injector_def reduceNoInitial_def split: prod.splits)

theorem context_without_imports_rejects_witness:
  "importsOf (contextGraph 1 ::
      (unit, unit, nat, string,
       (string, nat, (unit, string) Provider list, referenceHeap) BuildContextFn) GraphQLModule) = [] \<and>
   moduleContext (Suc 0) listInjector referenceAssign referenceAggregate contextGraph 1 ''request''
       emptyHeap
     = Some (Inl TypeError)"
proof -
  have h: "importsOf (contextGraph 1 ::
      (unit, unit, nat, string,
       (string, nat, (unit, string) Provider list, referenceHeap) BuildContextFn) GraphQLModule) = []"
    by (simp add: contextGraph_def exampleModule_def importsOf_def)
  from context_without_imports_rejects[where graph = contextGraph and m = 1, OF h,
      of 0 listInjector referenceAssign referenceAggregate "''request''" emptyHeap] h
  show ?thesis by blast
qed

subsection \<open>Mapping entries for a missing type or field\<close>

text \<open>
  Claim C9 says that a mapping entry whose path names a type or field missing from the
  resolver map is a no-op and raises no error. For a type missing from the map, a
  wildcard entry makes \<open>composeResolvers\<close> throw a \<open>TypeError\<close> (\<open>Object.keys\<close> of
  \<open>undefined\<close>), and an entry for a field of that type adds the type with
  the field, holding the composers applied to \<open>undefined\<close>.
\<close>

theorem absent_type_is_not_a_noop:
  assumes "CHR ''.'' \<notin> set T" and "map_of r T = None"
  shows "composeResolvers r [(T @ ''.*'', fns)] = Inl TypeError \<and>
         (CHR ''.'' \<notin> set F \<and> F \<noteq> ''*'' \<longrightarrow>
            composeResolvers r [(T @ ''.'' @ F, fns)] =
              Inr (r @ [(T, [(F, applyComposers (asArray fns) Undefined)])]))"
proof -
  have spw: "js_split CHR ''.'' (T @ ''.*'') = [T, ''*'']"
    using assms(1) js_split_two[of "CHR ''.''" T "''*''"] by simp
  have a: "composeResolvers r [(T @ ''.*'', fns)] = Inl TypeError"
    using composeEntry_wildcard_absent[OF spw assms(2)] by (simp add: composeResolvers_def)
  have b: "composeResolvers r [(T @ ''.'' @ F, fns)] =
              Inr (r @ [(T, [(F, applyComposers (asArray fns) Undefined)])])"
    if F: "CHR ''.'' \<notin> set F" "F \<noteq> ''*''"
  proof -
    have sp: "js_split CHR ''.'' (T @ ''.'' @ F) = [T, F]"
      using assms(1) F js_split_two[of "CHR ''.''" T F] by simp
    have nk: "T \<notin> fst ` set r" using assms(2) by (simp add: map_of_eq_None_iff)
    have g: "lodash_get r (T @ ''.'' @ F) = Undefined"
      using sp assms(2) by (simp add: lodash_get_def)
    have s: "lodash_set r (T @ ''.'' @ F) v = r @ [(T, [(F, v)])]" for v
      using sp assms(2) nk by (simp add: lodash_set_def update_absent)
    have "composeEntry [(T @ ''.'' @ F, fns)] r (T @ ''.'' @ F, fns) =
            Inr (r @ [(T, [(F, applyComposers (asArray fns) Undefined)])])"
      unfolding composeEntry_explicit[OF sp F(2)] g s ..
    then show ?thesis
      unfolding composeResolvers_def by (simp only: forEach.simps sum.case)
  qed
  from a b show ?thesis by simp
qed

theorem absent_type_is_not_a_noop_witness:
  "CHR ''.'' \<notin> set ''Query'' \<and> map_of ([] :: nat IResolvers) ''Query'' = None \<and>
   CHR ''.'' \<notin> set ''me'' \<and> ''me'' \<noteq> ''*'' \<and>
   composeResolvers [] [(''Query.*'', Single (digitComposer 1))] = Inl TypeError \<and>
   composeResolvers [] [(''Query.me'', Single (digitComposer 1))]
     = Inr [(''Query'', [(''me'', Resolver 1)])]"
proof -
  have h: "CHR ''.'' \<notin> set ''Query''" "map_of ([] :: nat IResolvers) ''Query'' = None"
    and f: "CHR ''.'' \<notin> set ''me''" "''me'' \<noteq> ''*''"
    by simp_all
  from absent_type_is_not_a_noop[OF h, of "Single (digitComposer 1)" "''me''"] h f
  show ?thesis by (simp add: applyComposers_def digitComposer_def)
qed

subsection \<open>Mapping keys that are not a two-segment path\<close>

text \<open>
  Claim C10: a mapping key that does not split at dots into exactly two segments
  (\<open>Query\<close>, \<open>Type.field.sub\<close>) matches no field. \<open>resolveRelevantMappings\<close> returns the
  empty list for it, its entry leaves the resolver map as it is and raises nothing, and
  the composition over a mapping that contains the entry is the composition over the
  other entries, in their order.
\<close>

theorem malformed_path_is_skipped:
  assumes "length (js_split CHR ''.'' path) \<noteq> 2"
  shows "resolveRelevantMappings r path mapping = Inr [] \<and>
         composeEntry mapping r (path, fns) = Inr r \<and>
         composeResolvers r (before @ (path, fns) # after) =
           forEach (composeEntry (before @ (path, fns) # after)) r (before @ after)"
proof -
  have a: "resolveRelevantMappings r path mapping = Inr []"
    using assms by (auto simp: resolveRelevantMappings_def split: list.splits)
  have b: "composeEntry m s (path, fns) = Inr s" for m :: "'a IResolversComposerMapping" and s
    using composeEntry_skip[of "(path, fns)" m s] assms by simp
  have "composeResolvers r (before @ (path, fns) # after) =
           forEach (composeEntry (before @ (path, fns) # after)) r (before @ after)"
    by (simp add: composeResolvers_def forEach_append b split: sum.splits)
  with a b show ?thesis by simp
qed

theorem malformed_path_is_skipped_witness:
  "length (js_split CHR ''.'' ''Type.field.sub'') \<noteq> 2 \<and>
   composeResolvers [(''Query'', [(''me'', Resolver 7)])]
      [(''Type.field.sub'', Single (digitComposer 1)), (''Query.me'', Single (digitComposer 2))]
     = Inr [(''Query'', [(''me'', Resolver 72)])] \<and>
   composeEntry [(''Type.field.sub'', Single (digitComposer 1))]
      [(''Query'', [(''me'', Resolver 7)])] (''Type.field.sub'', Single (digitComposer 1))
     = Inr [(''Query'', [(''me'', Resolver 7)])]"
proof -
  have h: "length (js_split CHR ''.'' ''Type.field.sub'') \<noteq> 2" by simp
  note t = malformed_path_is_skipped[OF h, of "[(''Query'', [(''me'', Resolver 7)])]" _
      "Single (digitComposer 1)" "[]" "[(''Query.me'', Single (digitComposer 2))]"]
  from t[of "[(''Type.field.sub'', Single (digitComposer 1))]"]
  have a: "composeResolvers [(''Query'', [(''me'', Resolver 7)])]
      [(''Type.field.sub'', Single (digitComposer 1)), (''Query.me'', Single (digitComposer 2))]
     = Inr [(''Query'', [(''me'', Resolver 72)])]"
    by (simp add: composeEntry_def resolveRelevantMappings_def
          composeField_def chainFunctions_def lodash_get_def lodash_set_def digitComposer_def)
  from t[of "[(''Type.field.sub'', Single (digitComposer 1))]"]
  have b: "composeEntry [(''Type.field.sub'', Single (digitComposer 1))]
      [(''Query'', [(''me'', Resolver 7)])] (''Type.field.sub'', Single (digitComposer 1))
     = Inr [(''Query'', [(''me'', Resolver 7)])]"
    by blast
  from h a b show ?thesis by blast
qed

subsection \<open>The order of the merged type definitions\<close>

text \<open>
  Claim C7 says that every module materializes its own fragment, in whatever form it is
  given, into a single string before merging it after the type definitions of the
  imports. The fragment stays a list when it is the result of a function of the config
  that returns a list, and when the option is the empty string the fragment is the
  empty list.
\<close>

theorem typeDefs_single_string_counterexample:
  "ownTypeDefs joinFragments printNothing functionTypeDefsModule = SDLs [''type A'', ''type B''] \<and>
   typeDefs (Suc 0) joinFragments printNothing (singleGraph functionTypeDefsModule) 0 =
     Some (joinFragments [SDLs [''type A'', ''type B'']]) \<and>
   ownTypeDefs joinFragments printNothing emptyTypeDefsModule = SDLs [] \<and>
   SDLs [''type A'', ''type B''] \<noteq>
     (SDL (joinFragments [SDL ''type A'', SDL ''type B'']) :: unit typeDefsValue)"
  by (simp add: functionTypeDefsModule_def emptyTypeDefsModule_def exampleModule_def
        singleGraph_def ownTypeDefs_def importsOf_def)

text \<open>
  Claim C7, amended: for modules A importing B importing C, and for every depth of
  three or more, \<open>A.typeDefs\<close> is the merge of B's type definitions and A's own fragment,
  B's being the merge of C's and B's own fragment, and C's the merge of C's own
  fragment. In general, when the getter of every import returns, the getter of the
  module returns the merge of the imports' type definitions, in import order, followed
  by the own fragment. An own fragment given literally is a single string when it is
  merged: a non-empty string is that string, a list of strings is the merge of the
  list, a parsed document is the document printed, and a list of documents is the
  merge of the list. A missing fragment and the empty string are merged as the empty
  list.
\<close>

theorem typeDefs_imports_then_own:
  shows "(importsOf (graph a) = [b] \<and> importsOf (graph b) = [c] \<and> importsOf (graph c) = [] \<longrightarrow>
          (\<forall>depth\<ge>3. typeDefs depth mg pr graph a =
             Some (mg [SDL (mg [SDL (mg [ownTypeDefs mg pr (graph c)]), ownTypeDefs mg pr (graph b)]),
                       ownTypeDefs mg pr (graph a)]))) \<and>
         ((\<forall>i\<in>set (importsOf (graph m)). typeDefs k mg pr graph i = Some (t i)) \<longrightarrow>
          (\<forall>k'\<ge>Suc k. typeDefs k' mg pr graph m =
             Some (mg (map (\<lambda>i. SDL (t i)) (importsOf (graph m)) @ [ownTypeDefs mg pr (graph m)])))) \<and>
         (\<forall>s. optTypeDefs (options (graph m)) = Some (Literal (SDL s)) \<and> s \<noteq> [] \<longrightarrow>
              ownTypeDefs mg pr (graph m) = SDL s) \<and>
         (\<forall>ss. optTypeDefs (options (graph m)) = Some (Literal (SDLs ss)) \<longrightarrow>
              ownTypeDefs mg pr (graph m) = SDL (mg (map SDL ss))) \<and>
         (\<forall>d. optTypeDefs (options (graph m)) = Some (Literal (Doc d)) \<longrightarrow>
              ownTypeDefs mg pr (graph m) = SDL (pr d)) \<and>
         (\<forall>ds. optTypeDefs (options (graph m)) = Some (Literal (Docs ds)) \<longrightarrow>
              ownTypeDefs mg pr (graph m) = SDL (mg (map Doc ds))) \<and>
         (optTypeDefs (options (graph m)) = None \<or>
          optTypeDefs (options (graph m)) = Some (Literal (SDL [])) \<longrightarrow>
            ownTypeDefs mg pr (graph m) = SDLs [])"
proof -
  have chain: "typeDefs depth mg pr graph a =
             Some (mg [SDL (mg [SDL (mg [ownTypeDefs mg pr (graph c)]), ownTypeDefs mg pr (graph b)]),
                       ownTypeDefs mg pr (graph a)])"
    if i: "importsOf (graph a) = [b]" "importsOf (graph b) = [c]" "importsOf (graph c) = []"
      and d: "depth \<ge> 3" for depth
  proof -
    have "typeDefs (Suc (Suc (Suc 0))) mg pr graph a =
             Some (mg [SDL (mg [SDL (mg [ownTypeDefs mg pr (graph c)]), ownTypeDefs mg pr (graph b)]),
                       ownTypeDefs mg pr (graph a)])"
      by (rule typeDefs_single[of graph a b, OF i(1)], rule typeDefs_single[of graph b c, OF i(2)],
          rule typeDefs_leaf[of graph c, OF i(3)])
    moreover have "Suc (Suc (Suc 0)) \<le> depth" using d by simp
    ultimately show ?thesis by (rule typeDefs_mono)
  qed
  have general: "typeDefs k' mg pr graph m =
             Some (mg (map (\<lambda>i. SDL (t i)) (importsOf (graph m)) @ [ownTypeDefs mg pr (graph m)]))"
    if h: "\<forall>i\<in>set (importsOf (graph m)). typeDefs k mg pr graph i = Some (t i)"
      and k': "Suc k \<le> k'" for k'
  proof -
    from h have "\<And>i. i \<in> set (importsOf (graph m)) \<Longrightarrow> typeDefs k mg pr graph i = Some (t i)"
      by blast
    from typeDefs_mono[OF typeDefs_step[of graph m k mg pr t, OF this] k'] show ?thesis .
  qed
  have str: "ownTypeDefs mg pr (graph m) = SDL s"
    if "optTypeDefs (options (graph m)) = Some (Literal (SDL s))" "s \<noteq> []" for s
    using that by (simp add: ownTypeDefs_def)
  have strs: "ownTypeDefs mg pr (graph m) = SDL (mg (map SDL ss))"
    if "optTypeDefs (options (graph m)) = Some (Literal (SDLs ss))" for ss
    using that by (simp add: ownTypeDefs_def)
  have doc: "ownTypeDefs mg pr (graph m) = SDL (pr d)"
    if "optTypeDefs (options (graph m)) = Some (Literal (Doc d))" for d
    using that by (simp add: ownTypeDefs_def)
  have docs: "ownTypeDefs mg pr (graph m) = SDL (mg (map Doc ds))"
    if "optTypeDefs (options (graph m)) = Some (Literal (Docs ds))" for ds
    using that by (simp add: ownTypeDefs_def)
  have absent: "ownTypeDefs mg pr (graph m) = SDLs []"
    if "optTypeDefs (options (graph m)) = None \<or>
          optTypeDefs (options (graph m)) = Some (Literal (SDL []))"
    using that by (auto simp: ownTypeDefs_def)
  from chain general str strs doc docs absent show ?thesis by blast
qed

theorem typeDefs_imports_then_own_witness:
  "importsOf (formsGraph 0) = [1] \<and> importsOf (formsGraph 1) = [2] \<and> importsOf (formsGraph 2) = [] \<and>
   (3::nat) \<le> 3 \<and>
   optTypeDefs (options (formsGraph 0)) = Some (Literal (Docs [''a1'', ''a2''])) \<and>
   optTypeDefs (options (formsGraph 1)) = Some (Literal (SDLs [''type B1'', ''type B2''])) \<and>
   optTypeDefs (options (formsGraph 2)) = Some (Literal (Doc ''c'')) \<and>
   optTypeDefs (options (chainGraph 0 :: (unit, unit, nat, string, unit) GraphQLModule))
     = Some (Literal (SDL ''type A'')) \<and> ''type A'' \<noteq> [] \<and>
   ownTypeDefs mergeDocuments printDocument (formsGraph 0) = SDL ''doc-a1 doc-a2'' \<and>
   ownTypeDefs mergeDocuments printDocument (formsGraph 1) = SDL ''type B1 type B2'' \<and>
   ownTypeDefs mergeDocuments printDocument (formsGraph 2) = SDL ''printed-c'' \<and>
   ownTypeDefs joinFragments printNothing (chainGraph 0 :: (unit, unit, nat, string, unit) GraphQLModule)
     = SDL ''type A'' \<and>
   typeDefs 3 mergeDocuments printDocument formsGraph 0 = Some ''printed-c type B1 type B2 doc-a1 doc-a2'' \<and>
   typeDefs (Suc (Suc 0)) mergeDocuments printDocument formsGraph 1 = Some ''printed-c type B1 type B2''"
proof -
  have h: "importsOf (formsGraph 0) = [1]" "importsOf (formsGraph 1) = [2]"
    "importsOf (formsGraph 2) = []"
    by (simp_all add: formsGraph_def formsModule_def importsOf_def)
  have o: "optTypeDefs (options (formsGraph 0)) = Some (Literal (Docs [''a1'', ''a2'']))"
    "optTypeDefs (options (formsGraph 1)) = Some (Literal (SDLs [''type B1'', ''type B2'']))"
    "optTypeDefs (options (formsGraph 2)) = Some (Literal (Doc ''c''))"
    by (simp_all add: formsGraph_def formsModule_def)
  let ?g = "chainGraph :: (unit, unit, nat, string, unit) moduleGraph"
  have oc: "optTypeDefs (options (?g 0)) = Some (Literal (SDL ''type A''))" "''type A'' \<noteq> []"
    by (simp_all add: chainGraph_def exampleModule_def)
  note t0 = typeDefs_imports_then_own[where graph = formsGraph and a = 0 and b = 1 and c = 2
      and mg = mergeDocuments and pr = printDocument and m = 0 and t = "\<lambda>_. []" and k = 0]
  note t1 = typeDefs_imports_then_own[where graph = formsGraph and a = 0 and b = 1 and c = 2
      and mg = mergeDocuments and pr = printDocument and m = 1
      and t = "\<lambda>_. ''printed-c''" and k = "Suc 0"]
  note t2 = typeDefs_imports_then_own[where graph = formsGraph and a = 0 and b = 1 and c = 2
      and mg = mergeDocuments and pr = printDocument and m = 2 and t = "\<lambda>_. []" and k = 0]
  note tc = typeDefs_imports_then_own[where graph = ?g and a = 0 and b = 1 and c = 2
      and mg = joinFragments and pr = printNothing and m = 0 and t = "\<lambda>_. []" and k = 0]
  from t0 o(1) have "ownTypeDefs mergeDocuments printDocument (formsGraph 0)
                       = SDL (mergeDocuments (map Doc [''a1'', ''a2'']))" by blast
  then have w0: "ownTypeDefs mergeDocuments printDocument (formsGraph 0) = SDL ''doc-a1 doc-a2''"
    by simp
  from t1 o(2) have "ownTypeDefs mergeDocuments printDocument (formsGraph 1)
                       = SDL (mergeDocuments (map SDL [''type B1'', ''type B2'']))" by blast
  then have w1: "ownTypeDefs mergeDocuments printDocument (formsGraph 1) = SDL ''type B1 type B2''"
    by simp
  from t2 o(3) have "ownTypeDefs mergeDocuments printDocument (formsGraph 2)
                       = SDL (printDocument ''c'')" by blast
  then have w2: "ownTypeDefs mergeDocuments printDocument (formsGraph 2) = SDL ''printed-c''"
    by (simp add: printDocument_def)
  from tc oc have wc: "ownTypeDefs joinFragments printNothing (?g 0) = SDL ''type A''" by blast
  from t0 h have "\<forall>depth\<ge>3. typeDefs depth mergeDocuments printDocument formsGraph 0 =
      Some (mergeDocuments [SDL (mergeDocuments [SDL (mergeDocuments
              [ownTypeDefs mergeDocuments printDocument (formsGraph 2)]),
              ownTypeDefs mergeDocuments printDocument (formsGraph 1)]),
              ownTypeDefs mergeDocuments printDocument (formsGraph 0)])"
    by blast
  then have v3: "typeDefs 3 mergeDocuments printDocument formsGraph 0 =
                   Some ''printed-c type B1 type B2 doc-a1 doc-a2''"
    unfolding w0 w1 w2 by simp
  have leaf: "typeDefs (Suc 0) mergeDocuments printDocument formsGraph 2 = Some ''printed-c''"
    using h(3) w2 by simp
  then have "\<forall>i\<in>set (importsOf (formsGraph 1)).
               typeDefs (Suc 0) mergeDocuments printDocument formsGraph i = Some ''printed-c''"
    unfolding h(2) by simp
  with t1 have "\<forall>k'\<ge>Suc (Suc 0). typeDefs k' mergeDocuments printDocument formsGraph 1 =
      Some (mergeDocuments (map (\<lambda>i. SDL ''printed-c'') (importsOf (formsGraph 1)) @
              [ownTypeDefs mergeDocuments printDocument (formsGraph 1)]))"
    by blast
  then have "\<forall>k'\<ge>Suc (Suc 0). typeDefs k' mergeDocuments printDocument formsGraph 1 =
                   Some ''printed-c type B1 type B2''"
    unfolding h(2) w1 by simp
  then have v2: "typeDefs (Suc (Suc 0)) mergeDocuments printDocument formsGraph 1 =
                   Some ''printed-c type B1 type B2''"
    using le_refl by blast
  from h o oc w0 w1 w2 wc v3 v2 show ?thesis by simp
qed

end
